theory Spec2Isabelle
  imports
    Main
    "HOL-Library.AList"
    "HOL-Library.Char_ord"
    "HOL-Library.List_Lexorder"
begin

section \<open>ScreenTone: the preset and preference logic of \<open>src/main.py\<close>\<close>

text \<open>
  The development embeds the class \<open>ScreenToneApp\<close> of \<open>src/main.py\<close>: its fields
  become a record, each method a function on that record. What the methods touch
  outside the object (the files under the application directory, the combo box, the
  sliders, the single-shot timers) is part of the record too, so that every
  effect of a method is visible in the state it returns.

  Scope of the model.
  \<^item> A file is addressed by its directory and its base name. \<open>os.path.join\<close> pairs a
    directory with a name, \<open>os.path.basename\<close> takes the second component.
  \<^item> A preset file holds either a JSON array of integers, as \<open>json.dump\<close> writes it,
    or something on which \<open>open\<close>/\<open>json.load\<close> raises. Other JSON documents are
    not covered. \<open>json.load\<close> after \<open>json.dump\<close> returns the list that was written.
  \<^item> Integers are Python's unbounded integers. A slider takes a C \<open>int\<close>:
    \<open>setValue\<close> raises \<open>OverflowError\<close> for a value outside \<open>-2^31 .. 2^31 - 1\<close>.
  \<^item> The widgets behave as the toolkit documents them: a slider with range 0..100
    clamps the value it is given; a widget whose signals are blocked emits none until
    they are released; a combo box makes the first item inserted into an
    empty box current, \<open>clear\<close> leaves no current item, \<open>setCurrentText\<close> on a
    non-editable box selects the first item with exactly that text and does nothing
    when there is none, and \<open>currentIndexChanged\<close> is emitted whenever the current
    index changes while signals are not blocked.
  \<^item> A single-shot timer started with interval 50 fires once, 50 time units after
    its start, unless it is stopped before.
\<close>

subsection \<open>Strings and files\<close>

definition endswith :: "string \<Rightarrow> string \<Rightarrow> bool" where
  "endswith s suffix \<longleftrightarrow>
     length suffix \<le> length s \<and> drop (length s - length suffix) s = suffix"

type_synonym path = "string \<times> string"

datatype content = JsonArray "int list" | Malformed

type_synonym filesystem = "(path \<times> content) list"

definition os_path_exists :: "filesystem \<Rightarrow> path \<Rightarrow> bool" where
  "os_path_exists fs p \<longleftrightarrow> map_of fs p \<noteq> None"

definition os_listdir :: "filesystem \<Rightarrow> string \<Rightarrow> string list" where
  "os_listdir fs d = map (\<lambda>e. snd (fst e)) (filter (\<lambda>e. fst (fst e) = d) fs)"

text \<open>
  The preferences file: a JSON object with an optional \<open>brightness_levels\<close> key, an
  array of integers, or something on which reading it raises (\<open>PrefsMalformed\<close>). The
  field \<open>prefs_file\<close> of the state is \<open>None\<close> when the file does not exist.
\<close>

datatype prefs_content = PrefsObject "int list option" | PrefsMalformed

definition presets_dir :: string where
  "presets_dir = ''presets''"

definition preset_restore_dir :: string where
  "preset_restore_dir = ''presetrestore''"

subsection \<open>Widgets, timers and the application object\<close>

record combo =
  items :: "string list"
  currentIndex :: int
  signalsBlocked :: bool

definition currentText :: "combo \<Rightarrow> string" where
  "currentText c =
     (if 0 \<le> currentIndex c \<and> currentIndex c < int (length (items c))
      then items c ! nat (currentIndex c) else [])"

definition combo_clear :: "combo \<Rightarrow> combo" where
  "combo_clear c = c\<lparr>items := [], currentIndex := - 1\<rparr>"

definition combo_addItem :: "string \<Rightarrow> combo \<Rightarrow> combo" where
  "combo_addItem t c =
     c\<lparr>items := items c @ [t],
       currentIndex := (if items c = [] then 0 else currentIndex c)\<rparr>"

definition combo_setCurrentIndex :: "int \<Rightarrow> combo \<Rightarrow> combo" where
  "combo_setCurrentIndex i c =
     c\<lparr>currentIndex := (if 0 \<le> i \<and> i < int (length (items c)) then i else - 1)\<rparr>"

fun findText :: "string \<Rightarrow> string list \<Rightarrow> nat option" where
  "findText t [] = None"
| "findText t (x # xs) =
     (if x = t then Some 0 else map_option Suc (findText t xs))"

definition combo_setCurrentText :: "string \<Rightarrow> combo \<Rightarrow> combo" where
  "combo_setCurrentText t c =
     (case findText t (items c) of
        None \<Rightarrow> c
      | Some i \<Rightarrow> combo_setCurrentIndex (int i) c)"

definition setValue :: "int \<Rightarrow> int" where
  "setValue v = max 0 (min 100 v)"

definition fits_c_int :: "int \<Rightarrow> bool" where
  "fits_c_int v \<longleftrightarrow> - 2147483648 \<le> v \<and> v \<le> 2147483647"

record timer =
  active :: bool
  deadline :: nat
  t_idx :: nat
  t_val :: int

type_synonym worker = "nat \<times> int"

text \<open>
  \<open>workers_started\<close> is the history of \<open>worker.start()\<close>: one entry, display index and
  value, for every brightness-set call issued. \<open>timers\<close> holds the \<open>QTimer\<close> objects
  created so far, \<open>brightness_update_timers\<close> maps a display index to the position of
  its latest timer, \<open>clock\<close> is the current time. \<open>sliders_blocked\<close> lists the sliders
  whose own signals are blocked.
\<close>

record app =
  monitor_sliders :: "int list"
  sliders_blocked :: "nat list"
  workers_started :: "worker list"
  is_preset_saved :: bool
  presets_list :: "string list"
  dropdown :: combo
  brightness_update_timers :: "(nat \<times> nat) list"
  timers :: "timer list"
  clock :: nat
  disk :: filesystem
  prefs_file :: "prefs_content option"

text \<open>
  The state \<open>__init__\<close> sets up, over the files found. \<open>presets_list\<close> is assigned by
  \<open>load_presets\<close> only, which runs before anything reads it; it starts empty here.
\<close>

definition init_app :: "filesystem \<Rightarrow> prefs_content option \<Rightarrow> app" where
  "init_app fs pf =
     \<lparr>monitor_sliders = [], sliders_blocked = [], workers_started = [], is_preset_saved = True,
      presets_list = [],
      dropdown = \<lparr>items = [], currentIndex = - 1, signalsBlocked = False\<rparr>,
      brightness_update_timers = [], timers = [], clock = 0,
      disk = fs, prefs_file = pf\<rparr>"

subsection \<open>The methods\<close>

text \<open>
  An exception is a value: a method that can raise returns \<open>Inl\<close> with the error and the
  state at the moment of the raise, or \<open>Inr\<close> with the state it ends in. A method whose
  body is wrapped in \<open>try: ... except: pass\<close> returns a state in both cases.
\<close>

datatype error = OSError | IndexError | OverflowError

type_synonym result = "error \<times> app + app"

definition set_brightness :: "nat \<Rightarrow> int \<Rightarrow> app \<Rightarrow> app" where
  "set_brightness monitor_index v s =
     s\<lparr>workers_started := workers_started s @ [(monitor_index, v)]\<rparr>"

text \<open>\<open>open(os.path.join(self.presets_dir, name))\<close> and \<open>json.load\<close>; \<open>None\<close> when either raises.\<close>

definition json_load_preset :: "app \<Rightarrow> string \<Rightarrow> int list option" where
  "json_load_preset s name =
     (case map_of (disk s) (presets_dir, name) of
        Some (JsonArray vs) \<Rightarrow> Some vs
      | _ \<Rightarrow> None)"

text \<open>
  The three statements \<open>self.monitor_sliders[i].blockSignals(True)\<close>,
  \<open>self.monitor_sliders[i].setValue(value)\<close>, \<open>self.monitor_sliders[i].blockSignals(False)\<close>.
  Indexing a Python list out of range raises \<open>IndexError\<close>. \<open>setValue\<close> raises
  \<open>OverflowError\<close> for a value that is no C \<open>int\<close>; the slider's signals are blocked by
  then and stay so, the third statement not being reached. Otherwise the slider takes
  the value, clamped, without \<open>monitor_slider_changed\<close> running, and its signals are
  released.
\<close>

definition slider_setValue :: "nat \<Rightarrow> int \<Rightarrow> app \<Rightarrow> result" where
  "slider_setValue i v s =
     (if i < length (monitor_sliders s)
      then (if fits_c_int v
            then Inr (s\<lparr>monitor_sliders := (monitor_sliders s)[i := setValue v],
                       sliders_blocked := removeAll i (sliders_blocked s)\<rparr>)
            else Inl (OverflowError, s\<lparr>sliders_blocked := i # sliders_blocked s\<rparr>))
      else Inl (IndexError, s))"

text \<open>
  The loop \<open>for i, value in enumerate(values): if i < len(self.monitor_sliders): ...\<close>
  of \<open>apply_selected_preset\<close> and \<open>load_user_prefs\<close>.
\<close>

fun apply_levels :: "nat \<Rightarrow> int list \<Rightarrow> app \<Rightarrow> result" where
  "apply_levels i [] s = Inr s"
| "apply_levels i (v # vs) s =
     (if i < length (monitor_sliders s)
      then (case slider_setValue i v s of
              Inl e \<Rightarrow> Inl e
            | Inr s1 \<Rightarrow> apply_levels (Suc i) vs (set_brightness i v s1))
      else apply_levels (Suc i) vs s)"

definition apply_selected_preset :: "app \<Rightarrow> app" where
  "apply_selected_preset s =
     (let preset_name = currentText (dropdown s) in
      if preset_name = [] \<or> preset_name = ''UnsavedPreset'' then s
      else (case json_load_preset s preset_name of
              None \<Rightarrow> s
            | Some vs \<Rightarrow>
                (case apply_levels 0 vs s of
                   Inl (e, s1) \<Rightarrow> s1
                 | Inr s1 \<Rightarrow> s1\<lparr>is_preset_saved := True\<rparr>)))"

text \<open>
  An operation on the combo box. \<open>currentIndexChanged\<close> is connected to
  \<open>apply_selected_preset\<close> (\<open>init_ui\<close>): the slot runs when the operation changed the
  current index and signals are not blocked.
\<close>

definition dropdown_do :: "(combo \<Rightarrow> combo) \<Rightarrow> app \<Rightarrow> app" where
  "dropdown_do f s =
     (let c = dropdown s; s' = s\<lparr>dropdown := f c\<rparr> in
      if currentIndex (f c) \<noteq> currentIndex c \<and> \<not> signalsBlocked c
      then apply_selected_preset s' else s')"

definition blockSignals :: "bool \<Rightarrow> app \<Rightarrow> app" where
  "blockSignals b s = s\<lparr>dropdown := (dropdown s)\<lparr>signalsBlocked := b\<rparr>\<rparr>"

text \<open>The loop \<open>for preset in self.presets_list: self.dropdown.addItem(preset)\<close>.\<close>

definition add_items :: "string list \<Rightarrow> app \<Rightarrow> app" where
  "add_items xs s = fold (\<lambda>preset. dropdown_do (combo_addItem preset)) xs s"

definition load_presets :: "app \<Rightarrow> app" where
  "load_presets s =
     (let s1 = dropdown_do combo_clear (s\<lparr>presets_list := []\<rparr>);
          s2 = s1\<lparr>presets_list :=
                 sort (filter (\<lambda>file. endswith file ''.json'') (os_listdir (disk s1) presets_dir))\<rparr>
      in add_items (presets_list s2) s2)"

text \<open>
  The block \<open>clear(); addItem("UnsavedPreset"); for preset in self.presets_list:
  addItem(preset); setCurrentIndex(0)\<close>, which \<open>monitor_slider_changed\<close>,
  \<open>delete_selected_preset\<close> and \<open>load_user_prefs\<close> each contain.
\<close>

definition fill_unsaved :: "app \<Rightarrow> app" where
  "fill_unsaved s =
     (let s1 = dropdown_do combo_clear s;
          s2 = dropdown_do (combo_addItem ''UnsavedPreset'') s1;
          s3 = add_items (presets_list s2) s2
      in dropdown_do (combo_setCurrentIndex 0) s3)"

definition stop_timer :: "nat \<Rightarrow> timer list \<Rightarrow> timer list" where
  "stop_timer k ts = (if k < length ts then ts[k := (ts ! k)\<lparr>active := False\<rparr>] else ts)"

definition monitor_slider_changed :: "nat \<Rightarrow> int \<Rightarrow> app \<Rightarrow> app" where
  "monitor_slider_changed monitor_index v s =
     (let s1 = (if is_preset_saved s
                then blockSignals False (fill_unsaved (blockSignals True (s\<lparr>is_preset_saved := False\<rparr>)))
                else s);
          s2 = (case map_of (brightness_update_timers s1) monitor_index of
                  Some k \<Rightarrow> s1\<lparr>timers := stop_timer k (timers s1)\<rparr>
                | None \<Rightarrow> s1);
          t = \<lparr>active = True, deadline = clock s2 + 50, t_idx = monitor_index, t_val = v\<rparr>
      in s2\<lparr>timers := timers s2 @ [t],
            brightness_update_timers :=
              AList.update monitor_index (length (timers s2)) (brightness_update_timers s2)\<rparr>)"

definition reset_sliders_to_default :: "app \<Rightarrow> app" where
  "reset_sliders_to_default s =
     (let default_value = 50;
          s1 = s\<lparr>monitor_sliders := map (\<lambda>_. setValue default_value) (monitor_sliders s),
                 sliders_blocked := []\<rparr>
      in fold (\<lambda>idx. set_brightness idx default_value) [0..<length (monitor_sliders s1)] s1)"

text \<open>
  \<open>shutil.move\<close> renames the file or, when that fails, copies it and unlinks the source.
  It either moves the file, or raises with the source still in place: before anything
  was written (\<open>MoveFails None\<close>), or with the destination holding what the copy left
  there, a broken or a complete copy (\<open>MoveFails (Some c)\<close>).
\<close>

datatype move_outcome = MoveOk | MoveFails "content option"

definition shutil_move :: "path \<Rightarrow> path \<Rightarrow> filesystem \<Rightarrow> filesystem" where
  "shutil_move src dst fs =
     (case map_of fs src of
        None \<Rightarrow> fs
      | Some c \<Rightarrow> AList.update dst c (AList.delete src fs))"

text \<open>\<open>try: shutil.move(src, dst)\<close> \<open>except: pass\<close>.\<close>

definition try_move :: "move_outcome \<Rightarrow> path \<Rightarrow> path \<Rightarrow> app \<Rightarrow> app" where
  "try_move mv src dst s =
     (case mv of
        MoveOk \<Rightarrow> s\<lparr>disk := shutil_move src dst (disk s)\<rparr>
      | MoveFails None \<Rightarrow> s
      | MoveFails (Some c) \<Rightarrow> s\<lparr>disk := AList.update dst c (disk s)\<rparr>)"

definition delete_selected_preset :: "move_outcome \<Rightarrow> app \<Rightarrow> app" where
  "delete_selected_preset mv s =
     (let preset_name = currentText (dropdown s) in
      if preset_name \<noteq> [] \<and> preset_name \<noteq> ''UnsavedPreset'' then
        (let preset_path = (presets_dir, preset_name) in
         if os_path_exists (disk s) preset_path then
           (let s1 = try_move mv preset_path (preset_restore_dir, preset_name) s;
                s2 = load_presets s1;
                s3 = reset_sliders_to_default s2;
                s4 = blockSignals False (fill_unsaved (blockSignals True s3))
            in s4\<lparr>is_preset_saved := False\<rparr>)
         else s)
      else s)"

text \<open>
  \<open>save_current_preset\<close> has no \<open>try\<close>: an error of \<open>open\<close> or of the write leaves the
  method as an exception, here \<open>Inl\<close> with the state at that point. \<open>OpenFails\<close>: the
  file could not be opened, nothing was written. \<open>DumpFails\<close>: the file was opened,
  hence truncated, and the write broke off. The argument \<open>chosen\<close> is what the file
  dialog returned: \<open>None\<close> for the empty string of a cancelled dialog.
\<close>

datatype write_outcome = WriteOk | OpenFails | DumpFails

definition save_current_preset :: "write_outcome \<Rightarrow> path option \<Rightarrow> app \<Rightarrow> result" where
  "save_current_preset w chosen s =
     (case chosen of
        None \<Rightarrow> Inr s
      | Some (d, preset_name) \<Rightarrow>
          (let data = monitor_sliders s;
               target = (d, if endswith preset_name ''.json'' then preset_name
                            else preset_name @ ''.json'')
           in case w of
                OpenFails \<Rightarrow> Inl (OSError, s)
              | DumpFails \<Rightarrow> Inl (OSError, s\<lparr>disk := AList.update target Malformed (disk s)\<rparr>)
              | WriteOk \<Rightarrow>
                  (let s1 = s\<lparr>disk := AList.update target (JsonArray data) (disk s)\<rparr>;
                       s2 = s1\<lparr>is_preset_saved := True\<rparr>;
                       s3 = load_presets s2;
                       base = preset_name
                   in Inr (blockSignals False
                             (dropdown_do (combo_setCurrentText base) (blockSignals True s3))))))"

text \<open>The search loop of \<open>load_user_prefs\<close>; a preset that cannot be read is skipped.\<close>

fun match_preset :: "app \<Rightarrow> int list \<Rightarrow> string list \<Rightarrow> string option" where
  "match_preset s levels [] = None"
| "match_preset s levels (preset_file # rest) =
     (case json_load_preset s preset_file of
        None \<Rightarrow> match_preset s levels rest
      | Some preset_values \<Rightarrow>
          if preset_values = levels then Some preset_file
          else match_preset s levels rest)"

definition load_user_prefs :: "app \<Rightarrow> app" where
  "load_user_prefs s =
     (case prefs_file s of
        None \<Rightarrow> s
      | Some PrefsMalformed \<Rightarrow> s
      | Some (PrefsObject bl) \<Rightarrow>
          (let levels = (case bl of None \<Rightarrow> [] | Some l \<Rightarrow> l);
               matched_preset = match_preset s levels (presets_list s)
           in case apply_levels 0 levels s of
                Inl (e, s1) \<Rightarrow> s1
              | Inr s1 \<Rightarrow>
                  (let s2 = blockSignals True s1;
                       s3 = (case matched_preset of
                               None \<Rightarrow> (fill_unsaved s2)\<lparr>is_preset_saved := False\<rparr>
                             | Some m \<Rightarrow>
                                 if m \<noteq> []
                                 then (dropdown_do (combo_setCurrentText m) s2)\<lparr>is_preset_saved := True\<rparr>
                                 else (fill_unsaved s2)\<lparr>is_preset_saved := False\<rparr>)
                   in blockSignals False s3)))"

text \<open>
  \<open>load_monitors\<close>: the argument is what the brightness library reports, one value per
  display. The sliders are rebuilt from it after the presets have been listed, one new
  slider per display. A reported value that is no C \<open>int\<close> makes \<open>setValue\<close> raise:
  the \<open>except\<close> of the method ends the loop, the sliders built so far remain.
\<close>

definition load_monitors :: "int list \<Rightarrow> app \<Rightarrow> app" where
  "load_monitors hw s =
     (load_presets s)\<lparr>monitor_sliders := map setValue (takeWhile fits_c_int hw),
                      sliders_blocked := []\<rparr>"

text \<open>
  The event loop: \<open>d\<close> time units pass. Every timer that is active and due fires: it
  becomes inactive (single shot) and its slot \<open>lambda idx, val: self.set_brightness(idx, val)\<close>
  runs. Timers fire in the order of their creation, which is the order of their deadlines.
\<close>

definition due :: "nat \<Rightarrow> timer \<Rightarrow> bool" where
  "due now t \<longleftrightarrow> active t \<and> deadline t \<le> now"

definition advance :: "nat \<Rightarrow> app \<Rightarrow> app" where
  "advance d s =
     (let now = clock s + d;
          fired = filter (due now) (timers s);
          s1 = s\<lparr>clock := now,
                 timers := map (\<lambda>t. if due now t then t\<lparr>active := False\<rparr> else t) (timers s)\<rparr>
      in fold (\<lambda>t. set_brightness (t_idx t) (t_val t)) fired s1)"

text \<open>
  The user drags slider \<open>i\<close> to \<open>v\<close>: the slider takes the value and, when it changed
  and the slider's signals are not blocked, emits \<open>valueChanged\<close>, which is connected to
  \<open>monitor_slider_changed\<close> (\<open>load_monitors\<close>).
\<close>

definition slider_moved :: "nat \<Rightarrow> int \<Rightarrow> app \<Rightarrow> app" where
  "slider_moved i v s =
     (if i < length (monitor_sliders s) \<and> monitor_sliders s ! i \<noteq> setValue v
      then (let s1 = s\<lparr>monitor_sliders := (monitor_sliders s)[i := setValue v]\<rparr> in
            if i \<in> set (sliders_blocked s) then s1
            else monitor_slider_changed i (setValue v) s1)
      else s)"

text \<open>A run of slider moves on one display: each move comes \<open>d\<close> time units after the one before.\<close>

fun run_moves :: "nat \<Rightarrow> (nat \<times> int) list \<Rightarrow> app \<Rightarrow> app" where
  "run_moves i [] s = s"
| "run_moves i ((d, v) # ms) s = run_moves i ms (monitor_slider_changed i v (advance d s))"

subsection \<open>The states the application can be in\<close>

text \<open>
  The application starts in \<open>init_app\<close>; then the handlers run one after the other, in
  any order: the two start-up steps, a slider drag, a choice in the combo box, the two
  buttons, and the passing of time. A save that raises ends the run.
\<close>

inductive reachable :: "app \<Rightarrow> bool" where
  start: "reachable (init_app fs pf)"
| monitors: "reachable s \<Longrightarrow> reachable (load_monitors hw s)"
| prefs: "reachable s \<Longrightarrow> reachable (load_user_prefs s)"
| slider: "reachable s \<Longrightarrow> reachable (slider_moved i v s)"
| choose: "reachable s \<Longrightarrow> reachable (dropdown_do (combo_setCurrentIndex k) s)"
| delete: "reachable s \<Longrightarrow> reachable (delete_selected_preset mv s)"
| save: "reachable s \<Longrightarrow> save_current_preset w chosen s = Inr s' \<Longrightarrow> reachable s'"
| tick: "reachable s \<Longrightarrow> reachable (advance d s)"

subsection \<open>Example states\<close>

text \<open>A presets directory with two presets of equal content and a file that is no preset.\<close>

definition two_presets :: filesystem where
  "two_presets =
     [((presets_dir, ''b.json''), JsonArray [40, 40]),
      ((presets_dir, ''a.json''), JsonArray [40, 40]),
      ((presets_dir, ''notes.txt''), Malformed)]"

text \<open>A presets directory in which the first preset differs from the two that follow.\<close>

definition three_presets :: filesystem where
  "three_presets =
     [((presets_dir, ''c.json''), JsonArray [40, 40]),
      ((presets_dir, ''a.json''), JsonArray [1, 1]),
      ((presets_dir, ''b.json''), JsonArray [40, 40])]"

definition second_match_app :: app where
  "second_match_app = load_monitors [30, 70] (init_app three_presets (Some (PrefsObject (Some [40, 40]))))"

definition example_app :: "int list \<Rightarrow> int list \<Rightarrow> app" where
  "example_app hw levels = load_monitors hw (init_app two_presets (Some (PrefsObject (Some levels))))"

definition started_app :: app where
  "started_app = example_app [30, 70] [40, 40, 7]"

text \<open>Preferences whose first level is no C integer.\<close>

definition overflow_app :: app where
  "overflow_app = example_app [30, 70] [2147483648, 40]"

subsection \<open>Closed forms used in the proofs\<close>

text \<open>What \<open>apply_levels\<close> does to the slider values, and the calls it issues.\<close>

fun levels_applied :: "nat \<Rightarrow> int list \<Rightarrow> int list \<Rightarrow> int list" where
  "levels_applied i [] sl = sl"
| "levels_applied i (v # vs) sl =
     levels_applied (Suc i) vs (if i < length sl then sl[i := setValue v] else sl)"

fun levels_calls :: "nat \<Rightarrow> int list \<Rightarrow> nat \<Rightarrow> worker list" where
  "levels_calls i [] n = []"
| "levels_calls i (v # vs) n = (if i < n then [(i, v)] else []) @ levels_calls (Suc i) vs n"

fun levels_unblocked :: "nat \<Rightarrow> int list \<Rightarrow> nat \<Rightarrow> nat list \<Rightarrow> nat list" where
  "levels_unblocked i [] n bl = bl"
| "levels_unblocked i (v # vs) n bl =
     levels_unblocked (Suc i) vs n (if i < n then removeAll i bl else bl)"

text \<open>The state a method that swallows the exception goes on with, or ends in.\<close>

definition result_state :: "result \<Rightarrow> app" where
  "result_state r = (case r of Inl (e, s) \<Rightarrow> s | Inr s \<Rightarrow> s)"

text \<open>The combo box after the sentinel block, signals released.\<close>

definition unsaved_combo :: "string list \<Rightarrow> combo" where
  "unsaved_combo pl = \<lparr>items = ''UnsavedPreset'' # pl, currentIndex = 0, signalsBlocked = False\<rparr>"

text \<open>
  The preset names all carry the suffix, and the combo box lists them, with or without
  the sentinel in front.
\<close>

definition listed :: "app \<Rightarrow> bool" where
  "listed s \<longleftrightarrow>
     (\<forall>n \<in> set (presets_list s). endswith n ''.json'') \<and>
     (items (dropdown s) = presets_list s \<or> items (dropdown s) = ''UnsavedPreset'' # presets_list s)"

text \<open>Slider values within the range 0..100; the file name \<open>save_current_preset\<close> writes to.\<close>

definition levels_ok :: "int list \<Rightarrow> bool" where
  "levels_ok sl \<longleftrightarrow> (\<forall>v \<in> set sl. 0 \<le> v \<and> v \<le> 100)"

definition with_suffix :: "string \<Rightarrow> string" where
  "with_suffix n = (if endswith n ''.json'' then n else n @ ''.json'')"

text \<open>
  What applying levels can change: the values of the sliders, not their number, and
  within the range if they were; which sliders are blocked; further calls issued; the
  saved flag, which is not cleared.
\<close>

definition ui_step :: "app \<Rightarrow> app \<Rightarrow> bool" where
  "ui_step s s' \<longleftrightarrow>
     (\<exists>sl bl w b.
        s' = s\<lparr>monitor_sliders := sl, sliders_blocked := bl,
                workers_started := workers_started s @ w, is_preset_saved := b\<rparr> \<and>
        length sl = length (monitor_sliders s) \<and>
        (levels_ok (monitor_sliders s) \<longrightarrow> levels_ok sl) \<and>
        (is_preset_saved s \<longrightarrow> b))"

text \<open>
  Timers: every active timer is the one its display's entry in
  \<open>brightness_update_timers\<close> points to; the active timers of a display; the
  brightness-set calls issued for a display; the timer list after the \<open>stop()\<close> of
  \<open>monitor_slider_changed\<close>.
\<close>

definition timers_ok :: "app \<Rightarrow> bool" where
  "timers_ok s \<longleftrightarrow>
     (\<forall>k < length (timers s). active (timers s ! k) \<longrightarrow>
        map_of (brightness_update_timers s) (t_idx (timers s ! k)) = Some k)"

definition pending :: "nat \<Rightarrow> app \<Rightarrow> timer list" where
  "pending i s = filter (\<lambda>t. active t \<and> t_idx t = i) (timers s)"

definition calls_for :: "nat \<Rightarrow> app \<Rightarrow> worker list" where
  "calls_for i s = filter (\<lambda>w. fst w = i) (workers_started s)"

definition stopped :: "nat \<Rightarrow> app \<Rightarrow> timer list" where
  "stopped i s = (case map_of (brightness_update_timers s) i of
        Some k \<Rightarrow> stop_timer k (timers s) | None \<Rightarrow> timers s)"

subsection \<open>The selection states of the specification\<close>

definition Matched :: "string \<Rightarrow> app \<Rightarrow> bool" where
  "Matched name s \<longleftrightarrow> is_preset_saved s \<and> currentText (dropdown s) = name"

definition NoMatch :: "app \<Rightarrow> bool" where
  "NoMatch s \<longleftrightarrow> \<not> is_preset_saved s \<and> currentText (dropdown s) = ''UnsavedPreset''"

section \<open>Auxiliary facts\<close>

subsection \<open>Applying levels and combo box operations\<close>

lemma length_levels_applied [simp]: "length (levels_applied i vs sl) = length sl"
  by (induction i vs sl rule: levels_applied.induct) auto

lemma apply_levels_eq:
  assumes "\<forall>v \<in> set (take (length (monitor_sliders s) - i) vs). fits_c_int v"
  shows "apply_levels i vs s =
     Inr (s\<lparr>monitor_sliders := levels_applied i vs (monitor_sliders s),
           sliders_blocked := levels_unblocked i vs (length (monitor_sliders s)) (sliders_blocked s),
           workers_started := workers_started s @ levels_calls i vs (length (monitor_sliders s))\<rparr>)"
  using assms
proof (induction i vs s rule: apply_levels.induct)
  case (1 i s)
  then show ?case by simp
next
  case (2 i v vs s)
  show ?case
  proof (cases "i < length (monitor_sliders s)")
    case True
    then have t: "take (length (monitor_sliders s) - i) (v # vs) =
        v # take (length (monitor_sliders s) - Suc i) vs"
      by (simp add: Suc_diff_Suc [symmetric] del: Suc_diff_Suc)
    from "2.prems" t have v: "fits_c_int v"
      and rest: "\<forall>v \<in> set (take (length (monitor_sliders s) - Suc i) vs). fits_c_int v"
      by simp_all
    let ?s1 = "s\<lparr>monitor_sliders := (monitor_sliders s)[i := setValue v],
                  sliders_blocked := removeAll i (sliders_blocked s)\<rparr>"
    have sv: "slider_setValue i v s = Inr ?s1"
      using True v by (simp add: slider_setValue_def)
    have "apply_levels (Suc i) vs (set_brightness i v ?s1) =
        Inr ((set_brightness i v ?s1)
          \<lparr>monitor_sliders := levels_applied (Suc i) vs (monitor_sliders (set_brightness i v ?s1)),
           sliders_blocked := levels_unblocked (Suc i) vs
             (length (monitor_sliders (set_brightness i v ?s1))) (sliders_blocked (set_brightness i v ?s1)),
           workers_started := workers_started (set_brightness i v ?s1) @
             levels_calls (Suc i) vs (length (monitor_sliders (set_brightness i v ?s1)))\<rparr>)"
      using rest by (intro "2.IH"(1) [OF True sv]) (simp add: set_brightness_def)
    then show ?thesis
      using True sv by (simp add: set_brightness_def)
  next
    case False
    then have "apply_levels (Suc i) vs s =
        Inr (s\<lparr>monitor_sliders := levels_applied (Suc i) vs (monitor_sliders s),
              sliders_blocked := levels_unblocked (Suc i) vs (length (monitor_sliders s)) (sliders_blocked s),
              workers_started := workers_started s @ levels_calls (Suc i) vs (length (monitor_sliders s))\<rparr>)"
      by (intro "2.IH"(2)) simp_all
    with False show ?thesis by simp
  qed
qed

lemma result_state_simps [simp]:
  "result_state (Inr s) = s"
  "result_state (Inl (e, s)) = s"
  by (simp_all add: result_state_def)

lemma ui_stepI:
  assumes "s' = s\<lparr>monitor_sliders := sl, sliders_blocked := bl,
                workers_started := workers_started s @ w, is_preset_saved := b\<rparr>"
    and "length sl = length (monitor_sliders s)"
    and "levels_ok (monitor_sliders s) \<Longrightarrow> levels_ok sl"
    and "is_preset_saved s \<Longrightarrow> b"
  shows "ui_step s s'"
  unfolding ui_step_def using assms by blast

lemma ui_step_refl: "ui_step s s"
  by (rule ui_stepI [where sl = "monitor_sliders s" and bl = "sliders_blocked s" and w = "[]"
        and b = "is_preset_saved s"]) simp_all

lemma ui_step_trans:
  assumes "ui_step s s'" and "ui_step s' s''"
  shows "ui_step s s''"
proof -
  from assms(1) obtain sl bl w b where
    1: "s' = s\<lparr>monitor_sliders := sl, sliders_blocked := bl,
                workers_started := workers_started s @ w, is_preset_saved := b\<rparr>"
    and l1: "length sl = length (monitor_sliders s)"
    and o1: "levels_ok (monitor_sliders s) \<longrightarrow> levels_ok sl"
    and b1: "is_preset_saved s \<longrightarrow> b"
    unfolding ui_step_def by blast
  from assms(2) obtain sl' bl' w' b' where
    2: "s'' = s'\<lparr>monitor_sliders := sl', sliders_blocked := bl',
                workers_started := workers_started s' @ w', is_preset_saved := b'\<rparr>"
    and l2: "length sl' = length (monitor_sliders s')"
    and o2: "levels_ok (monitor_sliders s') \<longrightarrow> levels_ok sl'"
    and b2: "is_preset_saved s' \<longrightarrow> b'"
    unfolding ui_step_def by blast
  show ?thesis
  proof (rule ui_stepI [where sl = sl' and bl = bl' and w = "w @ w'" and b = b'])
    show "s'' = s\<lparr>monitor_sliders := sl', sliders_blocked := bl',
                workers_started := workers_started s @ w @ w', is_preset_saved := b'\<rparr>"
      unfolding 2 1 by simp
    show "length sl' = length (monitor_sliders s)"
      using l1 l2 unfolding 1 by simp
    show "levels_ok sl'" if "levels_ok (monitor_sliders s)"
      using that o1 o2 unfolding 1 by simp
    show b' if "is_preset_saved s"
      using that b1 b2 unfolding 1 by simp
  qed
qed

lemma ui_step_fields:
  assumes "ui_step s s'"
  shows "dropdown s' = dropdown s"
    and "presets_list s' = presets_list s"
    and "disk s' = disk s"
    and "prefs_file s' = prefs_file s"
    and "timers s' = timers s"
    and "brightness_update_timers s' = brightness_update_timers s"
    and "clock s' = clock s"
    and "length (monitor_sliders s') = length (monitor_sliders s)"
  using assms unfolding ui_step_def by auto

lemma ui_step_saved: "ui_step s s' \<Longrightarrow> is_preset_saved s \<Longrightarrow> is_preset_saved s'"
  unfolding ui_step_def by auto

lemma ui_step_workers: "ui_step s s' \<Longrightarrow> \<exists>w. workers_started s' = workers_started s @ w"
  unfolding ui_step_def by auto

lemma ui_step_levels_ok:
  "ui_step s s' \<Longrightarrow> levels_ok (monitor_sliders s) \<Longrightarrow> levels_ok (monitor_sliders s')"
  unfolding ui_step_def by auto

lemma levels_ok_update: "levels_ok sl \<Longrightarrow> levels_ok (sl[i := setValue v])"
  by (auto simp: levels_ok_def setValue_def dest!: set_update_subset_insert [THEN subsetD])

lemma apply_levels_ui_step: "ui_step s (result_state (apply_levels i vs s))"
proof (induction i vs s rule: apply_levels.induct)
  case (1 i s)
  then show ?case by (simp add: ui_step_refl)
next
  case (2 i v vs s)
  show ?case
  proof (cases "i < length (monitor_sliders s)")
    case True
    show ?thesis
    proof (cases "fits_c_int v")
      case fits: True
      let ?s1 = "s\<lparr>monitor_sliders := (monitor_sliders s)[i := setValue v],
                    sliders_blocked := removeAll i (sliders_blocked s)\<rparr>"
      have sv: "slider_setValue i v s = Inr ?s1"
        using True fits by (simp add: slider_setValue_def)
      have "ui_step s (set_brightness i v ?s1)"
        by (rule ui_stepI [where sl = "(monitor_sliders s)[i := setValue v]"
              and bl = "removeAll i (sliders_blocked s)" and w = "[(i, v)]"
              and b = "is_preset_saved s"])
           (simp_all add: set_brightness_def levels_ok_update)
      moreover have "ui_step (set_brightness i v ?s1)
          (result_state (apply_levels (Suc i) vs (set_brightness i v ?s1)))"
        by (rule "2.IH"(1) [OF True sv])
      ultimately have "ui_step s (result_state (apply_levels (Suc i) vs (set_brightness i v ?s1)))"
        by (rule ui_step_trans)
      then show ?thesis
        using True sv by simp
    next
      case False
      have "result_state (apply_levels i (v # vs) s) = s\<lparr>sliders_blocked := i # sliders_blocked s\<rparr>"
        using True False by (simp add: slider_setValue_def)
      moreover have "ui_step s (s\<lparr>sliders_blocked := i # sliders_blocked s\<rparr>)"
        by (rule ui_stepI [where sl = "monitor_sliders s" and bl = "i # sliders_blocked s"
              and w = "[]" and b = "is_preset_saved s"])
           simp_all
      ultimately show ?thesis by simp
    qed
  next
    case False
    then show ?thesis
      using "2.IH"(2) by simp
  qed
qed

lemma levels_applied_nth:
  "k < length sl \<Longrightarrow>
   levels_applied i vs sl ! k =
     (if i \<le> k \<and> k < i + length vs then setValue (vs ! (k - i)) else sl ! k)"
proof (induction i vs sl rule: levels_applied.induct)
  case (1 i sl)
  then show ?case by simp
next
  case (2 i v vs sl)
  then show ?case
    by (auto simp: nth_list_update nth_Cons' Suc_diff_le)
qed

lemma levels_applied_0:
  "levels_applied 0 vs sl = map setValue (take (length sl) vs) @ drop (length vs) sl"
  by (rule nth_equalityI) (auto simp: levels_applied_nth nth_append min_def)

lemma levels_calls_zip: "levels_calls i vs n = zip [i..<n] vs"
proof (induction i vs n rule: levels_calls.induct)
  case (1 i n)
  then show ?case by simp
next
  case (2 i v vs n)
  then show ?case by (auto simp: upt_conv_Cons)
qed


lemma apply_selected_preset_ui_step: "ui_step s (apply_selected_preset s)"
proof (cases "currentText (dropdown s) = [] \<or> currentText (dropdown s) = ''UnsavedPreset''")
  case True
  then show ?thesis by (auto simp: apply_selected_preset_def ui_step_refl)
next
  case False
  show ?thesis
  proof (cases "json_load_preset s (currentText (dropdown s))")
    case None
    with False show ?thesis by (simp add: apply_selected_preset_def ui_step_refl)
  next
    case (Some vs)
    let ?r = "result_state (apply_levels 0 vs s)"
    have r: "ui_step s ?r"
      by (rule apply_levels_ui_step)
    have "ui_step ?r (?r\<lparr>is_preset_saved := True\<rparr>)"
      by (rule ui_stepI [where sl = "monitor_sliders ?r" and bl = "sliders_blocked ?r" and w = "[]"
            and b = True]) simp_all
    with r have t: "ui_step s (?r\<lparr>is_preset_saved := True\<rparr>)"
      by (rule ui_step_trans)
    have "apply_selected_preset s = ?r \<or> apply_selected_preset s = ?r\<lparr>is_preset_saved := True\<rparr>"
      using False Some
      by (cases "apply_levels 0 vs s") (auto simp: apply_selected_preset_def)
    with r t show ?thesis by auto
  qed
qed

lemma apply_selected_preset_frame [simp]:
  "dropdown (apply_selected_preset s) = dropdown s"
  "presets_list (apply_selected_preset s) = presets_list s"
  "disk (apply_selected_preset s) = disk s"
  "prefs_file (apply_selected_preset s) = prefs_file s"
  "timers (apply_selected_preset s) = timers s"
  "brightness_update_timers (apply_selected_preset s) = brightness_update_timers s"
  "clock (apply_selected_preset s) = clock s"
  "length (monitor_sliders (apply_selected_preset s)) = length (monitor_sliders s)"
  using ui_step_fields [OF apply_selected_preset_ui_step [of s]] by simp_all

lemma apply_selected_preset_saved: "is_preset_saved s \<Longrightarrow> is_preset_saved (apply_selected_preset s)"
  using apply_selected_preset_ui_step by (rule ui_step_saved)

lemma apply_selected_preset_workers:
  "\<exists>w. workers_started (apply_selected_preset s) = workers_started s @ w"
  using apply_selected_preset_ui_step by (rule ui_step_workers)

lemma dropdown_do_frame [simp]:
  "dropdown (dropdown_do f s) = f (dropdown s)"
  "presets_list (dropdown_do f s) = presets_list s"
  "disk (dropdown_do f s) = disk s"
  "prefs_file (dropdown_do f s) = prefs_file s"
  "timers (dropdown_do f s) = timers s"
  "brightness_update_timers (dropdown_do f s) = brightness_update_timers s"
  "clock (dropdown_do f s) = clock s"
  "length (monitor_sliders (dropdown_do f s)) = length (monitor_sliders s)"
  by (simp_all add: dropdown_do_def Let_def)

lemma dropdown_do_saved: "is_preset_saved s \<Longrightarrow> is_preset_saved (dropdown_do f s)"
  by (simp add: dropdown_do_def Let_def apply_selected_preset_saved)

lemma dropdown_do_workers: "\<exists>w. workers_started (dropdown_do f s) = workers_started s @ w"
  using apply_selected_preset_workers [of "s\<lparr>dropdown := f (dropdown s)\<rparr>"]
  by (auto simp: dropdown_do_def Let_def)

lemma dropdown_do_blocked:
  "signalsBlocked (dropdown s) \<Longrightarrow> dropdown_do f s = s\<lparr>dropdown := f (dropdown s)\<rparr>"
  by (simp add: dropdown_do_def Let_def)

lemma dropdown_do_same_index:
  "currentIndex (f (dropdown s)) = currentIndex (dropdown s) \<Longrightarrow>
   dropdown_do f s = s\<lparr>dropdown := f (dropdown s)\<rparr>"
  by (simp add: dropdown_do_def Let_def)

lemma add_items_simps [simp]:
  "add_items [] s = s"
  "add_items (x # xs) s = add_items xs (dropdown_do (combo_addItem x) s)"
  by (simp_all add: add_items_def)

lemma add_items_frame [simp]:
  "presets_list (add_items xs s) = presets_list s"
  "disk (add_items xs s) = disk s"
  "prefs_file (add_items xs s) = prefs_file s"
  "timers (add_items xs s) = timers s"
  "brightness_update_timers (add_items xs s) = brightness_update_timers s"
  "clock (add_items xs s) = clock s"
  "length (monitor_sliders (add_items xs s)) = length (monitor_sliders s)"
  by (induction xs arbitrary: s; simp)+

lemma add_items_dropdown [simp]:
  "items (dropdown (add_items xs s)) = items (dropdown s) @ xs"
  "signalsBlocked (dropdown (add_items xs s)) = signalsBlocked (dropdown s)"
  "currentIndex (dropdown (add_items xs s)) =
     (if items (dropdown s) = [] \<and> xs \<noteq> [] then 0 else currentIndex (dropdown s))"
  by (induction xs arbitrary: s; simp add: combo_addItem_def)+

lemma add_items_saved: "is_preset_saved s \<Longrightarrow> is_preset_saved (add_items xs s)"
  by (induction xs arbitrary: s) (simp_all add: dropdown_do_saved)

lemma add_items_workers: "\<exists>w. workers_started (add_items xs s) = workers_started s @ w"
proof (induction xs arbitrary: s)
  case Nil
  then show ?case by simp
next
  case (Cons x xs)
  obtain w1 where w1: "workers_started (dropdown_do (combo_addItem x) s) = workers_started s @ w1"
    using dropdown_do_workers by blast
  obtain w2 where "workers_started (add_items xs (dropdown_do (combo_addItem x) s)) =
      workers_started (dropdown_do (combo_addItem x) s) @ w2"
    using Cons.IH by blast
  with w1 show ?case by simp
qed

lemma add_items_blocked:
  "signalsBlocked (dropdown s) \<Longrightarrow>
   add_items xs s = s\<lparr>dropdown := (dropdown s)\<lparr>items := items (dropdown s) @ xs,
       currentIndex := (if items (dropdown s) = [] \<and> xs \<noteq> [] then 0 else currentIndex (dropdown s))\<rparr>\<rparr>"
  by (induction xs arbitrary: s) (auto simp: dropdown_do_blocked combo_addItem_def)

subsection \<open>Listing the presets\<close>

lemma load_presets_frame [simp]:
  "disk (load_presets s) = disk s"
  "prefs_file (load_presets s) = prefs_file s"
  "timers (load_presets s) = timers s"
  "brightness_update_timers (load_presets s) = brightness_update_timers s"
  "clock (load_presets s) = clock s"
  "length (monitor_sliders (load_presets s)) = length (monitor_sliders s)"
  by (simp_all add: load_presets_def Let_def)

lemma load_presets_list [simp]:
  "presets_list (load_presets s) =
     sort (filter (\<lambda>file. endswith file ''.json'') (os_listdir (disk s) presets_dir))"
  by (simp add: load_presets_def Let_def)

lemma load_presets_dropdown [simp]:
  "items (dropdown (load_presets s)) = presets_list (load_presets s)"
  "signalsBlocked (dropdown (load_presets s)) = signalsBlocked (dropdown s)"
  "currentIndex (dropdown (load_presets s)) = (if presets_list (load_presets s) = [] then - 1 else 0)"
  by (simp_all add: load_presets_def Let_def combo_clear_def)

lemma load_presets_saved: "is_preset_saved s \<Longrightarrow> is_preset_saved (load_presets s)"
  by (simp add: load_presets_def Let_def add_items_saved dropdown_do_saved)

lemma load_presets_workers: "\<exists>w. workers_started (load_presets s) = workers_started s @ w"
proof -
  let ?s0 = "s\<lparr>presets_list := []\<rparr>"
  obtain w1 where w1: "workers_started (dropdown_do combo_clear ?s0) = workers_started s @ w1"
    using dropdown_do_workers [of combo_clear ?s0] by auto
  let ?s2 = "(dropdown_do combo_clear ?s0)\<lparr>presets_list :=
     sort (filter (\<lambda>file. endswith file ''.json'') (os_listdir (disk s) presets_dir))\<rparr>"
  obtain w2 where "workers_started (add_items (presets_list ?s2) ?s2) = workers_started ?s2 @ w2"
    using add_items_workers by blast
  with w1 show ?thesis by (simp add: load_presets_def Let_def)
qed

lemma mem_os_listdir: "n \<in> set (os_listdir fs d) \<longleftrightarrow> map_of fs (d, n) \<noteq> None"
proof -
  have "n \<in> set (os_listdir fs d) \<longleftrightarrow> (d, n) \<in> fst ` set fs"
    by (force simp: os_listdir_def)
  then show ?thesis by (simp add: map_of_eq_None_iff)
qed

lemma mem_load_presets_list:
  "n \<in> set (presets_list (load_presets s)) \<longleftrightarrow>
     endswith n ''.json'' \<and> os_path_exists (disk s) (presets_dir, n)"
  by (auto simp: mem_os_listdir os_path_exists_def)

lemma sorted_load_presets: "sorted (presets_list (load_presets s))"
  by simp

lemma fill_unsaved_blocked:
  "signalsBlocked (dropdown s) \<Longrightarrow>
   fill_unsaved s =
     s\<lparr>dropdown := \<lparr>items = ''UnsavedPreset'' # presets_list s, currentIndex = 0, signalsBlocked = True\<rparr>\<rparr>"
  by (simp add: fill_unsaved_def Let_def dropdown_do_blocked add_items_blocked
      combo_clear_def combo_addItem_def combo_setCurrentIndex_def)

lemma unsaved_block:
  "blockSignals False (fill_unsaved (blockSignals True s)) =
     s\<lparr>dropdown := \<lparr>items = ''UnsavedPreset'' # presets_list s, currentIndex = 0, signalsBlocked = False\<rparr>\<rparr>"
  by (simp add: fill_unsaved_blocked blockSignals_def)

lemma currentText_unsaved [simp]:
  "currentText \<lparr>items = x # xs, currentIndex = 0, signalsBlocked = b\<rparr> = x"
  by (simp add: currentText_def)

lemma findText_Some: "t \<in> set xs \<Longrightarrow> \<exists>i. findText t xs = Some i \<and> i < length xs \<and> xs ! i = t"
  by (induction xs) auto

lemma findText_None: "t \<notin> set xs \<Longrightarrow> findText t xs = None"
  by (induction xs) auto

lemma currentText_setCurrentText:
  "t \<in> set (items c) \<Longrightarrow> currentText (combo_setCurrentText t c) = t"
  using findText_Some [of t "items c"]
  by (auto simp: combo_setCurrentText_def combo_setCurrentIndex_def currentText_def)

lemma setCurrentText_absent: "t \<notin> set (items c) \<Longrightarrow> combo_setCurrentText t c = c"
  by (simp add: combo_setCurrentText_def findText_None)

lemma items_setCurrentText [simp]: "items (combo_setCurrentText t c) = items c"
  by (simp add: combo_setCurrentText_def combo_setCurrentIndex_def split: option.splits)

subsection \<open>Frames and the sorted preset list\<close>

lemma monitor_slider_changed_presets [simp]:
  "presets_list (monitor_slider_changed i v s) = presets_list s"
  by (simp add: monitor_slider_changed_def Let_def unsaved_block split: option.splits)

lemma blockSignals_frame [simp]:
  "presets_list (blockSignals b s) = presets_list s"
  "monitor_sliders (blockSignals b s) = monitor_sliders s"
  "workers_started (blockSignals b s) = workers_started s"
  "is_preset_saved (blockSignals b s) = is_preset_saved s"
  "disk (blockSignals b s) = disk s"
  "prefs_file (blockSignals b s) = prefs_file s"
  "timers (blockSignals b s) = timers s"
  "brightness_update_timers (blockSignals b s) = brightness_update_timers s"
  "clock (blockSignals b s) = clock s"
  "sliders_blocked (blockSignals b s) = sliders_blocked s"
  "dropdown (blockSignals b s) = (dropdown s)\<lparr>signalsBlocked := b\<rparr>"
  by (simp_all add: blockSignals_def)

lemma fill_unsaved_presets [simp]: "presets_list (fill_unsaved s) = presets_list s"
  by (simp add: fill_unsaved_def Let_def)

lemma apply_levels_Inr: "apply_levels i vs s = Inr x \<Longrightarrow> ui_step s x"
  using apply_levels_ui_step [of s i vs] by simp

lemma apply_levels_Inl: "apply_levels i vs s = Inl (e, x) \<Longrightarrow> ui_step s x"
  using apply_levels_ui_step [of s i vs] by simp

lemma setCurrentText_blocked:
  "combo_setCurrentText t (c\<lparr>signalsBlocked := b\<rparr>) = (combo_setCurrentText t c)\<lparr>signalsBlocked := b\<rparr>"
  by (simp add: combo_setCurrentText_def combo_setCurrentIndex_def split: option.splits)

lemma load_user_prefs_run:
  assumes "prefs_file s = Some (PrefsObject bl)"
    and "levels = (case bl of None \<Rightarrow> [] | Some l \<Rightarrow> l)"
  shows "load_user_prefs s =
     (case apply_levels 0 levels s of
        Inl (e, s1) \<Rightarrow> s1
      | Inr s1 \<Rightarrow>
          (case match_preset s levels (presets_list s) of
             None \<Rightarrow> s1\<lparr>dropdown := unsaved_combo (presets_list s), is_preset_saved := False\<rparr>
           | Some m \<Rightarrow>
               if m \<noteq> []
               then s1\<lparr>dropdown := (combo_setCurrentText m (dropdown s))\<lparr>signalsBlocked := False\<rparr>,
                       is_preset_saved := True\<rparr>
               else s1\<lparr>dropdown := unsaved_combo (presets_list s), is_preset_saved := False\<rparr>))"
proof -
  have b: "load_user_prefs s =
     (case apply_levels 0 levels s of
        Inl (e, s1) \<Rightarrow> s1
      | Inr s1 \<Rightarrow>
          (let s2 = blockSignals True s1;
               s3 = (case match_preset s levels (presets_list s) of
                       None \<Rightarrow> (fill_unsaved s2)\<lparr>is_preset_saved := False\<rparr>
                     | Some m \<Rightarrow>
                         if m \<noteq> []
                         then (dropdown_do (combo_setCurrentText m) s2)\<lparr>is_preset_saved := True\<rparr>
                         else (fill_unsaved s2)\<lparr>is_preset_saved := False\<rparr>)
           in blockSignals False s3))"
    using assms(1) unfolding assms(2) by (simp add: load_user_prefs_def Let_def)
  show ?thesis
  proof (cases "apply_levels 0 levels s")
    case (Inl p)
    then show ?thesis unfolding b by simp
  next
    case (Inr x)
    from apply_levels_Inr [OF Inr]
    have p: "presets_list x = presets_list s" and d: "dropdown x = dropdown s"
      by (simp_all add: ui_step_fields)
    show ?thesis
      unfolding b Inr
      by (simp add: Let_def fill_unsaved_blocked dropdown_do_blocked blockSignals_def
          unsaved_combo_def setCurrentText_blocked p d split: option.splits)
  qed
qed

lemma load_user_prefs_cases:
  "\<exists>r. ui_step s r \<and>
     (load_user_prefs s = r \<or>
      load_user_prefs s = r\<lparr>dropdown := unsaved_combo (presets_list s), is_preset_saved := False\<rparr> \<or>
      (\<exists>m. load_user_prefs s =
         r\<lparr>dropdown := (combo_setCurrentText m (dropdown s))\<lparr>signalsBlocked := False\<rparr>,
           is_preset_saved := True\<rparr>))"
proof (cases "prefs_file s")
  case None
  then have "load_user_prefs s = s" by (simp add: load_user_prefs_def)
  then show ?thesis using ui_step_refl by blast
next
  case (Some pc)
  show ?thesis
  proof (cases pc)
    case PrefsMalformed
    with Some have "load_user_prefs s = s" by (simp add: load_user_prefs_def)
    then show ?thesis using ui_step_refl by blast
  next
    case (PrefsObject bl)
    define levels where "levels = (case bl of None \<Rightarrow> [] | Some l \<Rightarrow> l)"
    note run = load_user_prefs_run [OF Some [unfolded PrefsObject] levels_def]
    show ?thesis
    proof (cases "apply_levels 0 levels s")
      case (Inl p)
      obtain e x where p: "p = (e, x)" by (cases p)
      from Inl p have "ui_step s x" by (simp add: apply_levels_Inl)
      moreover have "load_user_prefs s = x"
        unfolding run Inl p by simp
      ultimately show ?thesis by blast
    next
      case (Inr x)
      then have "ui_step s x" by (rule apply_levels_Inr)
      moreover have "load_user_prefs s =
          x\<lparr>dropdown := unsaved_combo (presets_list s), is_preset_saved := False\<rparr> \<or>
        (\<exists>m. load_user_prefs s =
          x\<lparr>dropdown := (combo_setCurrentText m (dropdown s))\<lparr>signalsBlocked := False\<rparr>,
            is_preset_saved := True\<rparr>)"
        unfolding run Inr by (auto split: option.splits)
      ultimately show ?thesis by blast
    qed
  qed
qed

lemma load_user_prefs_fields:
  "presets_list (load_user_prefs s) = presets_list s"
  "disk (load_user_prefs s) = disk s"
  "timers (load_user_prefs s) = timers s"
  "brightness_update_timers (load_user_prefs s) = brightness_update_timers s"
  "clock (load_user_prefs s) = clock s"
  "length (monitor_sliders (load_user_prefs s)) = length (monitor_sliders s)"
  using load_user_prefs_cases [of s] by (auto dest: ui_step_fields)

lemma load_user_prefs_presets [simp]: "presets_list (load_user_prefs s) = presets_list s"
  by (rule load_user_prefs_fields)

lemma fold_set_brightness:
  "fold (\<lambda>x. set_brightness (f x) (g x)) xs s =
     s\<lparr>workers_started := workers_started s @ map (\<lambda>x. (f x, g x)) xs\<rparr>"
  by (induction xs arbitrary: s) (simp_all add: set_brightness_def)

lemma reset_sliders_eq:
  "reset_sliders_to_default s =
     s\<lparr>monitor_sliders := replicate (length (monitor_sliders s)) 50,
       sliders_blocked := [],
       workers_started := workers_started s @ map (\<lambda>idx. (idx, 50)) [0..<length (monitor_sliders s)]\<rparr>"
  by (simp add: reset_sliders_to_default_def Let_def fold_set_brightness setValue_def map_replicate_const)

lemma advance_eq:
  "advance d s =
     s\<lparr>clock := clock s + d,
       timers := map (\<lambda>t. if due (clock s + d) t then t\<lparr>active := False\<rparr> else t) (timers s),
       workers_started := workers_started s @
          map (\<lambda>t. (t_idx t, t_val t)) (filter (due (clock s + d)) (timers s))\<rparr>"
  by (simp add: advance_def Let_def fold_set_brightness)

lemma reset_sliders_presets [simp]: "presets_list (reset_sliders_to_default s) = presets_list s"
  by (simp add: reset_sliders_eq)

lemma advance_presets [simp]: "presets_list (advance d s) = presets_list s"
  by (simp add: advance_eq)

lemma reachable_sorted: "reachable s \<Longrightarrow> sorted (presets_list s)"
proof (induction rule: reachable.induct)
  case (start fs pf)
  then show ?case by (simp add: init_app_def)
next
  case (monitors s hw)
  then show ?case by (simp add: load_monitors_def)
next
  case (slider s i v)
  then show ?case by (simp add: slider_moved_def Let_def)
next
  case (delete s mv)
  then show ?case
    by (simp add: delete_selected_preset_def Let_def)
next
  case (save s w chosen s')
  then show ?case
    by (auto simp: save_current_preset_def Let_def split: option.splits write_outcome.splits)
qed simp_all

lemma reachable_example_app: "reachable (example_app hw levels)"
  unfolding example_app_def by (rule reachable.monitors) (rule reachable.start)

lemma reachable_started_app: "reachable started_app"
  unfolding started_app_def by (rule reachable_example_app)

lemma reachable_second_match_app: "reachable second_match_app"
  unfolding second_match_app_def by (rule reachable.monitors) (rule reachable.start)

subsection \<open>Applying a preset, loading the preferences\<close>

lemma zip_upt_short: "length vs \<le> n \<Longrightarrow> zip [0..<n] vs = map (\<lambda>i. (i, vs ! i)) [0..<length vs]"
  by (rule nth_equalityI) auto

lemma zip_upt_long: "n \<le> length vs \<Longrightarrow> zip [0..<n] vs = map (\<lambda>i. (i, vs ! i)) [0..<n]"
  by (rule nth_equalityI) auto

lemma apply_levels_0_eq:
  assumes "\<forall>v \<in> set (take (length (monitor_sliders s)) vs). fits_c_int v"
  shows "apply_levels 0 vs s =
     Inr (s\<lparr>monitor_sliders := map setValue (take (length (monitor_sliders s)) vs) @
                drop (length vs) (monitor_sliders s),
           sliders_blocked := levels_unblocked 0 vs (length (monitor_sliders s)) (sliders_blocked s),
           workers_started := workers_started s @ zip [0..<length (monitor_sliders s)] vs\<rparr>)"
  using assms by (simp add: apply_levels_eq levels_applied_0 levels_calls_zip)

lemma apply_selected_preset_eq:
  assumes "currentText (dropdown s) = name" and "name \<noteq> []" and "name \<noteq> ''UnsavedPreset''"
    and "map_of (disk s) (presets_dir, name) = Some (JsonArray vs)"
    and "\<forall>v \<in> set (take (length (monitor_sliders s)) vs). fits_c_int v"
  shows "apply_selected_preset s =
     s\<lparr>monitor_sliders := map setValue (take (length (monitor_sliders s)) vs) @
          drop (length vs) (monitor_sliders s),
       sliders_blocked := levels_unblocked 0 vs (length (monitor_sliders s)) (sliders_blocked s),
       workers_started := workers_started s @ zip [0..<length (monitor_sliders s)] vs,
       is_preset_saved := True\<rparr>"
  using assms(1-4)
  by (simp add: apply_selected_preset_def json_load_preset_def apply_levels_0_eq [OF assms(5)])

lemma load_user_prefs_eq:
  assumes "prefs_file s = Some (PrefsObject bl)"
    and "levels = (case bl of None \<Rightarrow> [] | Some l \<Rightarrow> l)"
    and "\<forall>v \<in> set (take (length (monitor_sliders s)) levels). fits_c_int v"
    and "s1 = s\<lparr>monitor_sliders := map setValue (take (length (monitor_sliders s)) levels) @
                   drop (length levels) (monitor_sliders s),
                 sliders_blocked :=
                   levels_unblocked 0 levels (length (monitor_sliders s)) (sliders_blocked s),
                 workers_started := workers_started s @ zip [0..<length (monitor_sliders s)] levels\<rparr>"
  shows "load_user_prefs s =
     (case match_preset s levels (presets_list s) of
        None \<Rightarrow> s1\<lparr>dropdown := unsaved_combo (presets_list s), is_preset_saved := False\<rparr>
      | Some m \<Rightarrow>
          if m \<noteq> []
          then s1\<lparr>dropdown := (combo_setCurrentText m (dropdown s))\<lparr>signalsBlocked := False\<rparr>,
                  is_preset_saved := True\<rparr>
          else s1\<lparr>dropdown := unsaved_combo (presets_list s), is_preset_saved := False\<rparr>)"
proof -
  have a: "apply_levels 0 levels s = Inr s1"
    unfolding assms(4) using assms(3) by (rule apply_levels_0_eq)
  show ?thesis
    unfolding load_user_prefs_run [OF assms(1,2)] a by simp
qed

subsection \<open>What every reachable state satisfies; the search for a match\<close>

lemma listed_load_presets: "listed (load_presets s)"
  by (simp add: listed_def)

lemma monitor_slider_changed_dropdown:
  "dropdown (monitor_slider_changed i v s) =
     (if is_preset_saved s then unsaved_combo (presets_list s) else dropdown s)"
  by (simp add: monitor_slider_changed_def Let_def unsaved_block unsaved_combo_def split: option.splits)

lemma delete_selected_preset_cases:
  "delete_selected_preset mv s = s \<or>
   (\<exists>s1. disk s1 = disk (delete_selected_preset mv s) \<and>
      presets_list (delete_selected_preset mv s) = presets_list (load_presets s1) \<and>
      dropdown (delete_selected_preset mv s) = unsaved_combo (presets_list (load_presets s1)))"
proof (cases "delete_selected_preset mv s = s")
  case True
  then show ?thesis by simp
next
  case False
  define s1 where "s1 = try_move mv (presets_dir, currentText (dropdown s))
      (preset_restore_dir, currentText (dropdown s)) s"
  have "delete_selected_preset mv s =
     (blockSignals False (fill_unsaved (blockSignals True (reset_sliders_to_default (load_presets s1)))))
       \<lparr>is_preset_saved := False\<rparr>"
    using False unfolding s1_def delete_selected_preset_def Let_def by (auto split: if_splits)
  then have "disk s1 = disk (delete_selected_preset mv s) \<and>
      presets_list (delete_selected_preset mv s) = presets_list (load_presets s1) \<and>
      dropdown (delete_selected_preset mv s) = unsaved_combo (presets_list (load_presets s1))"
    by (simp add: unsaved_block reset_sliders_eq unsaved_combo_def)
  then show ?thesis by blast
qed

lemma listed_delete: "listed s \<Longrightarrow> listed (delete_selected_preset mv s)"
  using delete_selected_preset_cases [of mv s]
  by (auto simp: listed_def unsaved_combo_def mem_load_presets_list simp del: load_presets_list)

lemma save_current_preset_cases:
  assumes "save_current_preset w chosen s = Inr s'"
  shows "s' = s \<or>
   (\<exists>s2. presets_list s' = presets_list (load_presets s2) \<and>
      items (dropdown s') = presets_list (load_presets s2))"
proof (cases chosen)
  case None
  with assms show ?thesis by (simp add: save_current_preset_def)
next
  case (Some p)
  obtain d n where p: "p = (d, n)" by (cases p)
  from assms Some p have w: "w = WriteOk"
    by (cases w) (simp_all add: save_current_preset_def Let_def)
  let ?s2 = "s\<lparr>disk := AList.update (d, if endswith n ''.json'' then n else n @ ''.json'')
      (JsonArray (monitor_sliders s)) (disk s), is_preset_saved := True\<rparr>"
  have "s' = blockSignals False (dropdown_do (combo_setCurrentText n) (blockSignals True (load_presets ?s2)))"
    using assms Some p w by (simp add: save_current_preset_def Let_def)
  then have "presets_list s' = presets_list (load_presets ?s2) \<and>
      items (dropdown s') = presets_list (load_presets ?s2)"
    by (simp add: dropdown_do_blocked blockSignals_def)
  then show ?thesis by blast
qed

lemma listed_save: "listed s \<Longrightarrow> save_current_preset w chosen s = Inr s' \<Longrightarrow> listed s'"
  using save_current_preset_cases [of w chosen s s']
  by (auto simp: listed_def mem_load_presets_list simp del: load_presets_list)

lemma load_user_prefs_items:
  "items (dropdown (load_user_prefs s)) = items (dropdown s) \<or>
   items (dropdown (load_user_prefs s)) = ''UnsavedPreset'' # presets_list s"
  using load_user_prefs_cases [of s] by (auto simp: unsaved_combo_def dest: ui_step_fields(1))

lemma listed_load_user_prefs: "listed s \<Longrightarrow> listed (load_user_prefs s)"
  using load_user_prefs_items [of s] by (auto simp: listed_def)

lemma advance_dropdown [simp]: "dropdown (advance d s) = dropdown s"
  by (simp add: advance_eq)

lemma reachable_listed: "reachable s \<Longrightarrow> listed s"
proof (induction rule: reachable.induct)
  case (start fs pf)
  then show ?case by (simp add: init_app_def listed_def)
next
  case (monitors s hw)
  then show ?case using listed_load_presets [of s] by (simp add: load_monitors_def listed_def)
next
  case (prefs s)
  then show ?case by (simp add: listed_load_user_prefs)
next
  case (slider s i v)
  then show ?case
    by (auto simp: slider_moved_def Let_def listed_def monitor_slider_changed_dropdown unsaved_combo_def)
next
  case (choose s k)
  then show ?case by (simp add: listed_def combo_setCurrentIndex_def)
next
  case (delete s mv)
  then show ?case by (simp add: listed_delete)
next
  case (save s w chosen s')
  then show ?case using listed_save by blast
next
  case (tick s d)
  then show ?case by (simp add: listed_def)
qed


lemma match_preset_first:
  "k < length pl \<Longrightarrow> json_load_preset s (pl ! k) = Some levels \<Longrightarrow>
   \<forall>j<k. json_load_preset s (pl ! j) \<noteq> Some levels \<Longrightarrow>
   match_preset s levels pl = Some (pl ! k)"
proof (induction pl arbitrary: k)
  case Nil
  then show ?case by simp
next
  case (Cons p pl)
  show ?case
  proof (cases k)
    case 0
    with Cons.prems show ?thesis by simp
  next
    case (Suc k')
    from Cons.prems(3) Suc have p: "json_load_preset s p \<noteq> Some levels"
      by force
    have "\<forall>j<k'. json_load_preset s (pl ! j) \<noteq> Some levels"
      using Cons.prems(3) Suc by force
    then have "match_preset s levels pl = Some (pl ! k')"
      using Cons.IH [of k'] Cons.prems(1,2) Suc by simp
    with p Suc show ?thesis by (simp split: option.splits)
  qed
qed

lemma match_preset_none:
  "\<forall>n \<in> set pl. json_load_preset s n \<noteq> Some levels \<Longrightarrow> match_preset s levels pl = None"
  by (induction pl) (auto split: option.splits)

lemma currentText_signalsBlocked [simp]: "currentText (c\<lparr>signalsBlocked := b\<rparr>) = currentText c"
  by (simp add: currentText_def)

lemma endswith_nonempty: "endswith n ''.json'' \<Longrightarrow> n \<noteq> []"
  by (auto simp: endswith_def)

subsection \<open>Deleting a preset\<close>

lemma dirs_distinct [simp]: "presets_dir \<noteq> preset_restore_dir" "preset_restore_dir \<noteq> presets_dir"
  by (simp_all add: presets_dir_def preset_restore_dir_def)


lemma try_move_frame [simp]:
  "monitor_sliders (try_move mv src dst s) = monitor_sliders s"
  "sliders_blocked (try_move mv src dst s) = sliders_blocked s"
  "workers_started (try_move mv src dst s) = workers_started s"
  "is_preset_saved (try_move mv src dst s) = is_preset_saved s"
  "presets_list (try_move mv src dst s) = presets_list s"
  "dropdown (try_move mv src dst s) = dropdown s"
  "timers (try_move mv src dst s) = timers s"
  "brightness_update_timers (try_move mv src dst s) = brightness_update_timers s"
  "clock (try_move mv src dst s) = clock s"
  "prefs_file (try_move mv src dst s) = prefs_file s"
  by (simp_all add: try_move_def split: move_outcome.splits option.splits)




lemma delete_selected_preset_eq:
  assumes "currentText (dropdown s) = n" and "n \<noteq> []" and "n \<noteq> ''UnsavedPreset''"
    and "os_path_exists (disk s) (presets_dir, n)"
  shows "delete_selected_preset mv s =
     (load_presets (try_move mv (presets_dir, n) (preset_restore_dir, n) s))
       \<lparr>monitor_sliders := replicate (length (monitor_sliders s)) 50,
        sliders_blocked := [],
        workers_started :=
          workers_started (load_presets (try_move mv (presets_dir, n) (preset_restore_dir, n) s)) @
            map (\<lambda>idx. (idx, 50)) [0..<length (monitor_sliders s)],
        dropdown := unsaved_combo
          (presets_list (load_presets (try_move mv (presets_dir, n) (preset_restore_dir, n) s))),
        is_preset_saved := False\<rparr>"
proof -
  let ?s1 = "try_move mv (presets_dir, n) (preset_restore_dir, n) s"
  have "delete_selected_preset mv s =
     (blockSignals False (fill_unsaved (blockSignals True (reset_sliders_to_default (load_presets ?s1)))))
       \<lparr>is_preset_saved := False\<rparr>"
    using assms unfolding delete_selected_preset_def Let_def by simp
  then show ?thesis
    by (simp add: unsaved_block reset_sliders_eq unsaved_combo_def del: load_presets_list)
qed




subsection \<open>Slider values stay in range; saving a preset\<close>

lemma setValue_range: "0 \<le> setValue v \<and> setValue v \<le> 100"
  by (simp add: setValue_def)

lemma setValue_id: "0 \<le> v \<Longrightarrow> v \<le> 100 \<Longrightarrow> setValue v = v"
  by (simp add: setValue_def)

lemma map_setValue_id: "levels_ok vs \<Longrightarrow> map setValue vs = vs"
  by (induction vs) (simp_all add: levels_ok_def setValue_id)

lemma levels_ok_fits: "levels_ok vs \<Longrightarrow> \<forall>v \<in> set (take n vs). fits_c_int v"
  by (auto simp: levels_ok_def fits_c_int_def dest!: in_set_takeD)

lemma levels_ok_apply_selected:
  "levels_ok (monitor_sliders s) \<Longrightarrow> levels_ok (monitor_sliders (apply_selected_preset s))"
  using apply_selected_preset_ui_step by (rule ui_step_levels_ok)

lemma levels_ok_dropdown_do:
  "levels_ok (monitor_sliders s) \<Longrightarrow> levels_ok (monitor_sliders (dropdown_do f s))"
  using levels_ok_apply_selected [of "s\<lparr>dropdown := f (dropdown s)\<rparr>"]
  by (simp add: dropdown_do_def Let_def)

lemma levels_ok_add_items:
  "levels_ok (monitor_sliders s) \<Longrightarrow> levels_ok (monitor_sliders (add_items xs s))"
  by (induction xs arbitrary: s) (simp_all add: levels_ok_dropdown_do)

lemma levels_ok_load_presets:
  "levels_ok (monitor_sliders s) \<Longrightarrow> levels_ok (monitor_sliders (load_presets s))"
proof -
  assume a: "levels_ok (monitor_sliders s)"
  have "levels_ok (monitor_sliders (dropdown_do combo_clear (s\<lparr>presets_list := []\<rparr>)))"
    using a levels_ok_dropdown_do [of "s\<lparr>presets_list := []\<rparr>" combo_clear] by simp
  then show ?thesis
    by (simp add: load_presets_def Let_def levels_ok_add_items)
qed

lemma save_current_preset_eq:
  assumes "s2 = s\<lparr>disk := AList.update (d, with_suffix n) (JsonArray (monitor_sliders s)) (disk s),
                   is_preset_saved := True\<rparr>"
  shows "save_current_preset WriteOk (Some (d, n)) s =
     Inr ((load_presets s2)\<lparr>dropdown :=
        (combo_setCurrentText n (dropdown (load_presets s2)))\<lparr>signalsBlocked := False\<rparr>\<rparr>)"
  unfolding assms
  by (simp add: save_current_preset_def Let_def with_suffix_def dropdown_do_blocked blockSignals_def
      setCurrentText_blocked del: load_presets_list)

lemma levels_ok_save:
  assumes "levels_ok (monitor_sliders s)" and "save_current_preset w chosen s = Inr s'"
  shows "levels_ok (monitor_sliders s')"
proof (cases chosen)
  case None
  with assms show ?thesis by (simp add: save_current_preset_def)
next
  case (Some p)
  obtain d n where p: "p = (d, n)" by (cases p)
  from assms(2) Some p have w: "w = WriteOk"
    by (cases w) (simp_all add: save_current_preset_def Let_def)
  let ?s2 = "s\<lparr>disk := AList.update (d, with_suffix n) (JsonArray (monitor_sliders s)) (disk s),
                   is_preset_saved := True\<rparr>"
  have "levels_ok (monitor_sliders (load_presets ?s2))"
    using assms(1) levels_ok_load_presets [of ?s2] by simp
  then show ?thesis
    using assms(2) unfolding Some p w save_current_preset_eq [OF refl] by auto
qed

lemma levels_ok_delete:
  "levels_ok (monitor_sliders s) \<Longrightarrow> levels_ok (monitor_sliders (delete_selected_preset mv s))"
proof (cases "currentText (dropdown s) \<noteq> [] \<and> currentText (dropdown s) \<noteq> ''UnsavedPreset'' \<and>
    os_path_exists (disk s) (presets_dir, currentText (dropdown s))")
  case True
  then show ?thesis
    by (simp add: delete_selected_preset_eq [OF refl] levels_ok_def del: load_presets_list)
next
  case False
  moreover assume "levels_ok (monitor_sliders s)"
  ultimately show ?thesis
    by (auto simp: delete_selected_preset_def Let_def)
qed

lemma levels_ok_load_user_prefs:
  assumes "levels_ok (monitor_sliders s)"
  shows "levels_ok (monitor_sliders (load_user_prefs s))"
proof -
  from load_user_prefs_cases [of s] obtain r where r: "ui_step s r"
    and c: "monitor_sliders (load_user_prefs s) = monitor_sliders r"
    by auto
  from r assms have "levels_ok (monitor_sliders r)"
    by (rule ui_step_levels_ok)
  with c show ?thesis by simp
qed

lemma monitor_slider_changed_sliders [simp]:
  "monitor_sliders (monitor_slider_changed i v s) = monitor_sliders s"
  by (simp add: monitor_slider_changed_def Let_def unsaved_block split: option.splits)

lemma reachable_levels_ok: "reachable s \<Longrightarrow> levels_ok (monitor_sliders s)"
proof (induction rule: reachable.induct)
  case (start fs pf)
  then show ?case by (simp add: init_app_def levels_ok_def)
next
  case (monitors s hw)
  then show ?case using setValue_range by (auto simp: load_monitors_def levels_ok_def)
next
  case (prefs s)
  then show ?case by (simp add: levels_ok_load_user_prefs)
next
  case (slider s i v)
  then show ?case
    by (simp add: slider_moved_def Let_def levels_ok_update)
next
  case (choose s k)
  then show ?case by (simp add: levels_ok_dropdown_do)
next
  case (delete s mv)
  then show ?case by (simp add: levels_ok_delete)
next
  case (save s w chosen s')
  then show ?case using levels_ok_save by blast
next
  case (tick s d)
  then show ?case by (simp add: advance_eq)
qed


lemma map_of_update_same: "map_of (AList.update k v al) k = Some v"
  by (simp add: update_conv')

lemma with_suffix_endswith: "endswith (with_suffix n) ''.json''"
  by (simp add: with_suffix_def endswith_def)

lemma sentinel_no_suffix: "\<not> endswith ''UnsavedPreset'' ''.json''"
  by (simp add: endswith_def)

subsection \<open>Timers\<close>

lemma monitor_slider_changed_timers:
  "timers (monitor_slider_changed i v s) =
     (case map_of (brightness_update_timers s) i of
        Some k \<Rightarrow> stop_timer k (timers s) | None \<Rightarrow> timers s) @
     [\<lparr>active = True, deadline = clock s + 50, t_idx = i, t_val = v\<rparr>]"
  "brightness_update_timers (monitor_slider_changed i v s) =
     AList.update i
       (length (timers s)) (brightness_update_timers s)"
  "clock (monitor_slider_changed i v s) = clock s"
  "workers_started (monitor_slider_changed i v s) = workers_started s"
  by (simp_all add: monitor_slider_changed_def Let_def unsaved_block stop_timer_def split: option.splits)

lemma length_stop_timer [simp]: "length (stop_timer k ts) = length ts"
  by (simp add: stop_timer_def)

lemma nth_stop_timer:
  "j < length ts \<Longrightarrow> stop_timer k ts ! j = (if j = k then (ts ! j)\<lparr>active := False\<rparr> else ts ! j)"
  by (simp add: stop_timer_def)

lemma length_stopped [simp]: "length (stopped i s) = length (timers s)"
  by (simp add: stopped_def split: option.splits)

lemma stopped_nth_active:
  assumes "j < length (timers s)" and "active (stopped i s ! j)"
  shows "active (timers s ! j) \<and> stopped i s ! j = timers s ! j \<and>
         map_of (brightness_update_timers s) i \<noteq> Some j"
  using assms by (auto simp: stopped_def nth_stop_timer split: option.splits if_splits)

lemma stopped_none_pending:
  assumes "timers_ok s"
  shows "filter (\<lambda>t. active t \<and> t_idx t = i) (stopped i s) = []"
proof -
  have "\<not> (active t \<and> t_idx t = i)" if "t \<in> set (stopped i s)" for t
  proof
    assume a: "active t \<and> t_idx t = i"
    from that obtain j where j: "j < length (timers s)" and t: "stopped i s ! j = t"
      by (auto simp: in_set_conv_nth)
    from stopped_nth_active [OF j] a t
    have "active (timers s ! j)" and "timers s ! j = t"
      and "map_of (brightness_update_timers s) i \<noteq> Some j"
      by auto
    moreover from assms j \<open>active (timers s ! j)\<close>
    have "map_of (brightness_update_timers s) (t_idx (timers s ! j)) = Some j"
      by (simp add: timers_ok_def)
    ultimately show False using a by simp
  qed
  then show ?thesis by (simp add: filter_empty_conv)
qed

lemma pending_monitor_slider_changed:
  "timers_ok s \<Longrightarrow>
   pending i (monitor_slider_changed i v s) =
     [\<lparr>active = True, deadline = clock s + 50, t_idx = i, t_val = v\<rparr>]"
  using stopped_none_pending [of s i]
  by (simp add: pending_def monitor_slider_changed_timers stopped_def)

lemma timers_ok_monitor_slider_changed:
  assumes "timers_ok s"
  shows "timers_ok (monitor_slider_changed i v s)"
  unfolding timers_ok_def
proof (intro allI impI)
  fix k
  let ?s' = "monitor_slider_changed i v s"
  assume k: "k < length (timers ?s')" and a: "active (timers ?s' ! k)"
  have ts: "timers ?s' = stopped i s @ [\<lparr>active = True, deadline = clock s + 50, t_idx = i, t_val = v\<rparr>]"
    by (simp add: monitor_slider_changed_timers stopped_def)
  show "map_of (brightness_update_timers ?s') (t_idx (timers ?s' ! k)) = Some k"
  proof (cases "k < length (timers s)")
    case True
    then have nth: "timers ?s' ! k = stopped i s ! k"
      by (simp add: ts nth_append)
    with a have "active (stopped i s ! k)" by simp
    from stopped_nth_active [OF True this]
    have act: "active (timers s ! k)" and same: "stopped i s ! k = timers s ! k"
      and ni: "map_of (brightness_update_timers s) i \<noteq> Some k"
      by auto
    from assms True act have d: "map_of (brightness_update_timers s) (t_idx (timers s ! k)) = Some k"
      by (simp add: timers_ok_def)
    with ni have "t_idx (timers s ! k) \<noteq> i" by auto
    moreover have "t_idx (timers ?s' ! k) = t_idx (timers s ! k)"
      by (simp only: nth same)
    ultimately show ?thesis
      using d by (simp add: monitor_slider_changed_timers(2) update_conv')
  next
    case False
    with k have "k = length (timers s)"
      by (simp add: ts)
    then have "t_idx (timers ?s' ! k) = i"
      by (simp add: ts nth_append)
    then show ?thesis
      using \<open>k = length (timers s)\<close> by (simp add: monitor_slider_changed_timers(2) update_conv')
  qed
qed

lemma timers_ok_advance: "timers_ok s \<Longrightarrow> timers_ok (advance d s)"
  by (auto simp: timers_ok_def advance_eq)

lemma filter_fired:
  "filter (\<lambda>t. active t \<and> t_idx t = i) (map (\<lambda>t. if due now t then t\<lparr>active := False\<rparr> else t) ts) =
   filter (\<lambda>t. \<not> deadline t \<le> now) (filter (\<lambda>t. active t \<and> t_idx t = i) ts)"
  by (induction ts) (auto simp: due_def)

lemma pending_advance:
  "pending i (advance d s) = filter (\<lambda>t. \<not> deadline t \<le> clock s + d) (pending i s)"
  by (simp add: pending_def advance_eq filter_fired)

lemma calls_for_advance:
  "calls_for i (advance d s) =
     calls_for i s @ map (\<lambda>t. (i, t_val t)) (filter (\<lambda>t. deadline t \<le> clock s + d) (pending i s))"
proof -
  have "filter (\<lambda>w. fst w = i) (map (\<lambda>t. (t_idx t, t_val t)) (filter (due now) ts)) =
      map (\<lambda>t. (i, t_val t)) (filter (\<lambda>t. deadline t \<le> now) (filter (\<lambda>t. active t \<and> t_idx t = i) ts))"
    for now and ts :: "timer list"
    by (induction ts) (auto simp: due_def)
  then show ?thesis
    by (simp add: calls_for_def pending_def advance_eq)
qed

lemma clock_advance [simp]: "clock (advance d s) = clock s + d"
  by (simp add: advance_eq)

lemma calls_for_monitor_slider_changed [simp]:
  "calls_for i (monitor_slider_changed j v s) = calls_for i s"
  by (simp add: calls_for_def monitor_slider_changed_timers)


lemma timers_ok_cong:
  "timers s' = timers s \<Longrightarrow> brightness_update_timers s' = brightness_update_timers s \<Longrightarrow>
   timers_ok s' = timers_ok s"
  by (simp add: timers_ok_def)

lemma load_user_prefs_timers [simp]:
  "timers (load_user_prefs s) = timers s"
  "brightness_update_timers (load_user_prefs s) = brightness_update_timers s"
  by (rule load_user_prefs_fields)+

lemma delete_selected_preset_timers [simp]:
  "timers (delete_selected_preset mv s) = timers s"
  "brightness_update_timers (delete_selected_preset mv s) = brightness_update_timers s"
proof -
  have "timers (delete_selected_preset mv s) = timers s \<and>
      brightness_update_timers (delete_selected_preset mv s) = brightness_update_timers s"
  proof (cases "currentText (dropdown s) \<noteq> [] \<and> currentText (dropdown s) \<noteq> ''UnsavedPreset'' \<and>
      os_path_exists (disk s) (presets_dir, currentText (dropdown s))")
    case True
    then show ?thesis
      by (simp add: delete_selected_preset_eq [OF refl] del: load_presets_list)
  next
    case False
    then show ?thesis
      by (auto simp: delete_selected_preset_def Let_def)
  qed
  then show "timers (delete_selected_preset mv s) = timers s"
    and "brightness_update_timers (delete_selected_preset mv s) = brightness_update_timers s"
    by simp_all
qed

lemma save_current_preset_timers:
  assumes "save_current_preset w chosen s = Inr s'"
  shows "timers s' = timers s \<and> brightness_update_timers s' = brightness_update_timers s"
proof (cases chosen)
  case None
  with assms show ?thesis by (simp add: save_current_preset_def)
next
  case (Some p)
  obtain d n where p: "p = (d, n)" by (cases p)
  from assms Some p have w: "w = WriteOk"
    by (cases w) (simp_all add: save_current_preset_def Let_def)
  show ?thesis
    using assms unfolding Some p w save_current_preset_eq [OF refl] by auto
qed

lemma reachable_timers_ok: "reachable s \<Longrightarrow> timers_ok s"
proof (induction rule: reachable.induct)
  case (start fs pf)
  then show ?case by (simp add: init_app_def timers_ok_def)
next
  case (monitors s hw)
  then show ?case by (simp add: load_monitors_def timers_ok_def)
next
  case (prefs s)
  then show ?case by (simp add: timers_ok_def)
next
  case (slider s i v)
  have "timers_ok (s\<lparr>monitor_sliders := (monitor_sliders s)[i := setValue v]\<rparr>)"
    using slider.IH by (simp add: timers_ok_def)
  then show ?case
    using slider.IH by (simp add: slider_moved_def Let_def timers_ok_monitor_slider_changed)
next
  case (choose s k)
  then show ?case by (simp add: timers_ok_def)
next
  case (delete s mv)
  then show ?case by (simp add: timers_ok_def)
next
  case (save s w chosen s')
  then show ?case using save_current_preset_timers [of w chosen s s'] by (simp add: timers_ok_def)
next
  case (tick s d)
  then show ?case by (simp add: timers_ok_advance)
qed

lemma run_moves_pending:
  assumes "\<forall>m \<in> set ms. fst m < 50" and "timers_ok s"
    and "pending i s = [\<lparr>active = True, deadline = clock s + 50, t_idx = i, t_val = v\<rparr>]"
  shows "timers_ok (run_moves i ms s) \<and>
         clock (run_moves i ms s) = clock s + sum_list (map fst ms) \<and>
         pending i (run_moves i ms s) =
           [\<lparr>active = True, deadline = clock (run_moves i ms s) + 50, t_idx = i,
             t_val = last (v # map snd ms)\<rparr>] \<and>
         calls_for i (run_moves i ms s) = calls_for i s"
  using assms
proof (induction ms arbitrary: s v)
  case Nil
  then show ?case by simp
next
  case (Cons m ms)
  obtain d v' where m: "m = (d, v')" by (cases m)
  from Cons.prems(1) m have d: "d < 50" by simp
  let ?s1 = "advance d s"
  let ?s2 = "monitor_slider_changed i v' ?s1"
  have ok1: "timers_ok ?s1"
    using Cons.prems(2) by (rule timers_ok_advance)
  have c1: "calls_for i ?s1 = calls_for i s"
    using d by (simp add: calls_for_advance Cons.prems(3))
  have ok2: "timers_ok ?s2"
    using ok1 by (rule timers_ok_monitor_slider_changed)
  have cl2: "clock ?s2 = clock s + d"
    by (simp add: monitor_slider_changed_timers)
  have p2: "pending i ?s2 = [\<lparr>active = True, deadline = clock ?s2 + 50, t_idx = i, t_val = v'\<rparr>]"
    using ok1 by (simp add: pending_monitor_slider_changed cl2)
  have rest: "\<forall>m \<in> set ms. fst m < 50"
    using Cons.prems(1) by simp
  from Cons.IH [OF rest ok2 p2] c1 show ?case
    by (simp add: m cl2 add.assoc)
qed

subsection \<open>A level that is no C integer\<close>

text \<open>
  \<open>setValue\<close> raises on the first level, the \<open>except\<close> of \<open>load_user_prefs\<close> ends the
  method: no slider is set, no call issued, the first slider's signals stay blocked, and
  the preset that \<open>load_presets\<close> made current stays selected with the flag set.
\<close>

lemma load_user_prefs_overflow:
  "apply_levels 0 [2147483648, 40] overflow_app =
     Inl (OverflowError, overflow_app\<lparr>sliders_blocked := [0]\<rparr>) \<and>
   Matched ''a.json'' overflow_app \<and>
   monitor_sliders (load_user_prefs overflow_app) = [30, 70] \<and>
   workers_started (load_user_prefs overflow_app) = [] \<and>
   sliders_blocked (load_user_prefs overflow_app) = [0] \<and>
   Matched ''a.json'' (load_user_prefs overflow_app)"
proof -
  have sl: "monitor_sliders overflow_app = [30, 70]" by code_simp
  have bl: "sliders_blocked overflow_app = []" by code_simp
  have "\<not> fits_c_int 2147483648"
    by (simp add: fits_c_int_def)
  then have 1: "apply_levels 0 [2147483648, 40] overflow_app =
      Inl (OverflowError, overflow_app\<lparr>sliders_blocked := [0]\<rparr>)"
    by (simp add: slider_setValue_def sl bl)
  have 2: "Matched ''a.json'' overflow_app" by code_simp
  have 3: "monitor_sliders (load_user_prefs overflow_app) = [30, 70]" by code_simp
  have 4: "workers_started (load_user_prefs overflow_app) = []" by code_simp
  have 5: "sliders_blocked (load_user_prefs overflow_app) = [0]" by code_simp
  have 6: "Matched ''a.json'' (load_user_prefs overflow_app)" by code_simp
  from 1 2 3 4 5 6 show ?thesis by (intro conjI)
qed

section \<open>The claims\<close>

text \<open>
  C8. A slider value change while a preset is matched deselects it: the handler
  \<open>monitor_slider_changed\<close>, run in a reachable state whose saved flag is set, ends in
  \<open>NoMatch\<close>; the combo box then lists the sentinel \<open>UnsavedPreset\<close> first, followed by
  all known preset names, which are in sorted order, and the sentinel is the current item.
\<close>

theorem slider_change_deselects:
  assumes "reachable s" and "is_preset_saved s"
  shows "NoMatch (monitor_slider_changed i v s) \<and>
         items (dropdown (monitor_slider_changed i v s)) = ''UnsavedPreset'' # presets_list s \<and>
         presets_list (monitor_slider_changed i v s) = presets_list s \<and>
         sorted (presets_list s)"
proof -
  let ?s1 = "blockSignals False (fill_unsaved (blockSignals True (s\<lparr>is_preset_saved := False\<rparr>)))"
  have s1: "?s1 = s\<lparr>is_preset_saved := False,
      dropdown := \<lparr>items = ''UnsavedPreset'' # presets_list s, currentIndex = 0, signalsBlocked = False\<rparr>\<rparr>"
    by (simp add: unsaved_block)
  have dd: "dropdown (monitor_slider_changed i v s) = dropdown ?s1"
    and sv: "is_preset_saved (monitor_slider_changed i v s) = is_preset_saved ?s1"
    using assms(2) by (simp_all add: monitor_slider_changed_def Let_def split: option.splits)
  have "NoMatch (monitor_slider_changed i v s)"
    unfolding NoMatch_def dd sv s1 by simp
  moreover have "items (dropdown (monitor_slider_changed i v s)) = ''UnsavedPreset'' # presets_list s"
    unfolding dd s1 by simp
  moreover have "sorted (presets_list s)"
    using assms(1) by (rule reachable_sorted)
  ultimately show ?thesis by simp
qed

theorem slider_change_deselects_witness:
  "reachable started_app \<and> is_preset_saved started_app \<and>
   NoMatch (monitor_slider_changed 0 45 started_app) \<and>
   items (dropdown (monitor_slider_changed 0 45 started_app)) =
     [''UnsavedPreset'', ''a.json'', ''b.json'']"
proof -
  have sv: "is_preset_saved started_app"
    by code_simp
  have pl: "presets_list started_app = [''a.json'', ''b.json'']"
    by code_simp
  show ?thesis
    using slider_change_deselects [OF reachable_started_app sv, of 0 45] reachable_started_app sv
    by (simp add: pl)
qed

text \<open>
  C10. Applying a preset whose stored sequence is shorter than the display count, its
  values being C integers as every brightness level is: the sliders of the listed prefix
  take the stored values, the sliders beyond it keep their values, exactly one
  brightness-set call is issued for each listed display and none for the others, and the
  state is \<open>Matched\<close> for that preset.
\<close>

theorem apply_short_preset:
  assumes "currentText (dropdown s) = name" and "name \<noteq> []" and "name \<noteq> ''UnsavedPreset''"
    and "map_of (disk s) (presets_dir, name) = Some (JsonArray vs)"
    and "length vs < length (monitor_sliders s)"
    and "\<forall>v \<in> set vs. fits_c_int v"
  shows "monitor_sliders (apply_selected_preset s) =
           map setValue vs @ drop (length vs) (monitor_sliders s) \<and>
         workers_started (apply_selected_preset s) =
           workers_started s @ map (\<lambda>i. (i, vs ! i)) [0..<length vs] \<and>
         Matched name (apply_selected_preset s)"
proof -
  have z: "zip [0..<length (monitor_sliders s)] vs = map (\<lambda>i. (i, vs ! i)) [0..<length vs]"
    using assms(5) by (simp add: zip_upt_short)
  have f: "\<forall>v \<in> set (take (length (monitor_sliders s)) vs). fits_c_int v"
    using assms(6) by (auto dest: in_set_takeD)
  show ?thesis
    using assms(1,5) z by (simp add: apply_selected_preset_eq [OF assms(1-4) f] Matched_def)
qed

theorem apply_short_preset_witness:
  "currentText (dropdown (example_app [30, 70, 90] [])) = ''a.json'' \<and>
   map_of (disk (example_app [30, 70, 90] [])) (presets_dir, ''a.json'') = Some (JsonArray [40, 40]) \<and>
   monitor_sliders (example_app [30, 70, 90] []) = [30, 70, 90] \<and>
   monitor_sliders (apply_selected_preset (example_app [30, 70, 90] [])) = [40, 40, 90] \<and>
   workers_started (apply_selected_preset (example_app [30, 70, 90] [])) = [(0, 40), (1, 40)] \<and>
   Matched ''a.json'' (apply_selected_preset (example_app [30, 70, 90] []))"
proof -
  let ?s = "example_app [30, 70, 90] []"
  have ct: "currentText (dropdown ?s) = ''a.json''" by code_simp
  have f: "map_of (disk ?s) (presets_dir, ''a.json'') = Some (JsonArray [40, 40])" by code_simp
  have sl: "monitor_sliders ?s = [30, 70, 90]" by code_simp
  have ws: "workers_started ?s = []" by code_simp
  have len: "length [40, 40 :: int] < length (monitor_sliders ?s)" by (simp add: sl)
  have fits: "\<forall>v \<in> set [40, 40 :: int]. fits_c_int v" by (simp add: fits_c_int_def)
  show ?thesis
    using apply_short_preset [OF ct _ _ f len fits] ct f
    by (simp add: sl ws setValue_def upt_rec)
qed

text \<open>
  C9. Start-up reconciliation with a preference sequence longer than the display count
  \<open>N\<close>, its first \<open>N\<close> entries being C integers as every brightness level is: the loop
  over the levels raises no error, exactly the first \<open>N\<close> entries are applied to the
  sliders and issued as brightness-set calls, the remaining entries are ignored, whatever
  they are, and the method runs on to settle the selection state.
\<close>

theorem prefs_longer_than_displays:
  assumes "prefs_file s = Some (PrefsObject (Some levels))"
    and "length (monitor_sliders s) < length levels"
    and "\<forall>v \<in> set (take (length (monitor_sliders s)) levels). fits_c_int v"
  shows "(\<exists>s1. apply_levels 0 levels s = Inr s1) \<and>
         monitor_sliders (load_user_prefs s) =
           map setValue (take (length (monitor_sliders s)) levels) \<and>
         workers_started (load_user_prefs s) =
           workers_started s @ map (\<lambda>i. (i, levels ! i)) [0..<length (monitor_sliders s)] \<and>
         \<not> signalsBlocked (dropdown (load_user_prefs s)) \<and>
         (NoMatch (load_user_prefs s) \<or> is_preset_saved (load_user_prefs s))"
proof -
  have z: "zip [0..<length (monitor_sliders s)] levels =
      map (\<lambda>i. (i, levels ! i)) [0..<length (monitor_sliders s)]"
    using assms(2) by (simp add: zip_upt_long)
  have "\<exists>s1. apply_levels 0 levels s = Inr s1"
    using assms(3) by (simp add: apply_levels_0_eq)
  then show ?thesis
    using assms(2)
    by (simp add: load_user_prefs_eq [OF assms(1) _ assms(3) refl] z NoMatch_def unsaved_combo_def
        split: option.splits)
qed

theorem prefs_longer_than_displays_witness:
  "prefs_file started_app = Some (PrefsObject (Some [40, 40, 7])) \<and>
   monitor_sliders started_app = [30, 70] \<and>
   (\<exists>s1. apply_levels 0 [40, 40, 7] started_app = Inr s1) \<and>
   monitor_sliders (load_user_prefs started_app) = [40, 40] \<and>
   workers_started (load_user_prefs started_app) = [(0, 40), (1, 40)]"
proof -
  have pf: "prefs_file started_app = Some (PrefsObject (Some [40, 40, 7]))" by code_simp
  have sl: "monitor_sliders started_app = [30, 70]" by code_simp
  have ws: "workers_started started_app = []" by code_simp
  have len: "length (monitor_sliders started_app) < length [40, 40, 7 :: int]" by (simp add: sl)
  have fits: "\<forall>v \<in> set (take (length (monitor_sliders started_app)) [40, 40, 7 :: int]). fits_c_int v"
    by (simp add: sl fits_c_int_def)
  show ?thesis
    using prefs_longer_than_displays [OF pf len fits] pf
    by (simp add: sl ws setValue_def upt_rec)
qed

text \<open>
  C1. Start-up reconciliation. In a reachable state whose preferences file was read, with
  \<open>levels\<close> its brightness levels (the empty sequence when the key is missing), those
  handed to a slider being C integers as every brightness level is: the preset list is
  sorted; if position \<open>k\<close> of the list is the first whose stored sequence equals
  \<open>levels\<close>, then \<open>load_user_prefs\<close> ends in \<open>Matched\<close> for that name, whatever later
  presets hold, equal ones included; if no listed preset holds exactly \<open>levels\<close>, it ends
  in \<open>NoMatch\<close>, the sentinel selected.
\<close>

theorem startup_reconciliation:
  assumes "reachable s" and "prefs_file s = Some (PrefsObject bl)"
    and "levels = (case bl of None \<Rightarrow> [] | Some l \<Rightarrow> l)"
    and "\<forall>v \<in> set (take (length (monitor_sliders s)) levels). fits_c_int v"
  shows "sorted (presets_list s) \<and>
         (\<forall>k<length (presets_list s).
            json_load_preset s (presets_list s ! k) = Some levels \<and>
            (\<forall>j<k. json_load_preset s (presets_list s ! j) \<noteq> Some levels) \<longrightarrow>
            Matched (presets_list s ! k) (load_user_prefs s)) \<and>
         ((\<forall>n \<in> set (presets_list s). json_load_preset s n \<noteq> Some levels) \<longrightarrow>
            NoMatch (load_user_prefs s))"
proof (intro conjI allI impI)
  show "sorted (presets_list s)"
    using assms(1) by (rule reachable_sorted)
next
  fix k
  assume k: "k < length (presets_list s)"
    and first: "json_load_preset s (presets_list s ! k) = Some levels \<and>
      (\<forall>j<k. json_load_preset s (presets_list s ! j) \<noteq> Some levels)"
  let ?m = "presets_list s ! k"
  have m: "match_preset s levels (presets_list s) = Some ?m"
    using k first by (simp add: match_preset_first)
  have l: "listed s"
    using assms(1) by (rule reachable_listed)
  have mem: "?m \<in> set (presets_list s)"
    using k by simp
  with l have ne: "?m \<noteq> []" and it: "?m \<in> set (items (dropdown s))"
    by (auto simp: listed_def endswith_nonempty)
  have "currentText ((combo_setCurrentText ?m (dropdown s))\<lparr>signalsBlocked := False\<rparr>) = ?m"
    using currentText_setCurrentText [OF it] by simp
  then show "Matched ?m (load_user_prefs s)"
    by (simp add: load_user_prefs_eq [OF assms(2,3,4) refl] m ne Matched_def)
next
  assume "\<forall>n \<in> set (presets_list s). json_load_preset s n \<noteq> Some levels"
  then have "match_preset s levels (presets_list s) = None"
    by (rule match_preset_none)
  then show "NoMatch (load_user_prefs s)"
    by (simp add: load_user_prefs_eq [OF assms(2,3,4) refl] NoMatch_def unsaved_combo_def)
qed

theorem startup_reconciliation_witness:
  "reachable second_match_app \<and>
   prefs_file second_match_app = Some (PrefsObject (Some [40, 40])) \<and>
   presets_list second_match_app = [''a.json'', ''b.json'', ''c.json''] \<and>
   json_load_preset second_match_app ''a.json'' = Some [1, 1] \<and>
   json_load_preset second_match_app ''b.json'' = Some [40, 40] \<and>
   json_load_preset second_match_app ''c.json'' = Some [40, 40] \<and>
   Matched ''a.json'' second_match_app \<and>
   Matched ''b.json'' (load_user_prefs second_match_app) \<and>
   reachable started_app \<and>
   prefs_file started_app = Some (PrefsObject (Some [40, 40, 7])) \<and>
   Matched ''a.json'' started_app \<and>
   NoMatch (load_user_prefs started_app)"
proof -
  let ?s = "second_match_app"
  have pf: "prefs_file ?s = Some (PrefsObject (Some [40, 40]))" by code_simp
  have pl: "presets_list ?s = [''a.json'', ''b.json'', ''c.json'']" by code_simp
  have a: "json_load_preset ?s ''a.json'' = Some [1, 1]" by code_simp
  have b: "json_load_preset ?s ''b.json'' = Some [40, 40]" by code_simp
  have c: "json_load_preset ?s ''c.json'' = Some [40, 40]" by code_simp
  have sl: "monitor_sliders ?s = [30, 70]" by code_simp
  have before: "Matched ''a.json'' ?s" by code_simp
  have fits: "\<forall>v \<in> set (take (length (monitor_sliders ?s)) [40, 40 :: int]). fits_c_int v"
    by (simp add: sl fits_c_int_def)
  have pf2: "prefs_file started_app = Some (PrefsObject (Some [40, 40, 7]))" by code_simp
  have pl2: "presets_list started_app = [''a.json'', ''b.json'']" by code_simp
  have a2: "json_load_preset started_app ''a.json'' = Some [40, 40]" by code_simp
  have b2: "json_load_preset started_app ''b.json'' = Some [40, 40]" by code_simp
  have sl2: "monitor_sliders started_app = [30, 70]" by code_simp
  have before2: "Matched ''a.json'' started_app" by code_simp
  have fits2: "\<forall>v \<in> set (take (length (monitor_sliders started_app)) [40, 40, 7 :: int]). fits_c_int v"
    by (simp add: sl2 fits_c_int_def)
  have "Matched ''b.json'' (load_user_prefs ?s)"
    using startup_reconciliation [OF reachable_second_match_app pf _ fits,
        THEN conjunct2, THEN conjunct1, THEN spec, of 1]
    by (simp add: pl a b)
  moreover have "NoMatch (load_user_prefs started_app)"
    using startup_reconciliation [OF reachable_started_app pf2 _ fits2]
    by (simp add: pl2 a2 b2)
  ultimately show ?thesis
    using reachable_second_match_app reachable_started_app pf pf2 pl a b c before before2 by simp
qed

text \<open>
  C6. A delete that goes through (the current item is a name other than the sentinel and
  its file exists in the presets directory), whether the move succeeds or not: the preset
  list is the sorted listing of the directory as it then is, every slider is at 50, the
  brightness-set calls issued end with one call of 50 for each display, and the state is
  \<open>NoMatch\<close>, the combo box holding the sentinel followed by the preset list.
\<close>

theorem delete_resets:
  assumes "currentText (dropdown s) = n" and "n \<noteq> []" and "n \<noteq> ''UnsavedPreset''"
    and "os_path_exists (disk s) (presets_dir, n)"
  shows "presets_list (delete_selected_preset mv s) =
           sort (filter (\<lambda>file. endswith file ''.json'')
                  (os_listdir (disk (delete_selected_preset mv s)) presets_dir)) \<and>
         monitor_sliders (delete_selected_preset mv s) = replicate (length (monitor_sliders s)) 50 \<and>
         (\<exists>w. workers_started (delete_selected_preset mv s) =
                workers_started s @ w @ map (\<lambda>idx. (idx, 50)) [0..<length (monitor_sliders s)]) \<and>
         NoMatch (delete_selected_preset mv s) \<and>
         items (dropdown (delete_selected_preset mv s)) =
           ''UnsavedPreset'' # presets_list (delete_selected_preset mv s)"
proof -
  define s1 where "s1 = try_move mv (presets_dir, n) (preset_restore_dir, n) s"
  note eq = delete_selected_preset_eq [OF assms, of mv, folded s1_def]
  have ws1: "workers_started s1 = workers_started s"
    unfolding s1_def by simp
  obtain w where w: "workers_started (load_presets s1) = workers_started s @ w"
    using load_presets_workers [of s1] ws1 by auto
  have "\<exists>w. workers_started (delete_selected_preset mv s) =
      workers_started s @ w @ map (\<lambda>idx. (idx, 50)) [0..<length (monitor_sliders s)]"
    unfolding eq using w by simp
  moreover have "presets_list (delete_selected_preset mv s) =
      sort (filter (\<lambda>file. endswith file ''.json'')
        (os_listdir (disk (delete_selected_preset mv s)) presets_dir))"
    unfolding eq by simp
  moreover have "NoMatch (delete_selected_preset mv s)"
    unfolding eq by (simp add: NoMatch_def unsaved_combo_def del: load_presets_list)
  ultimately show ?thesis
    unfolding eq by (simp add: unsaved_combo_def del: load_presets_list)
qed

theorem delete_resets_witness:
  "currentText (dropdown started_app) = ''a.json'' \<and>
   os_path_exists (disk started_app) (presets_dir, ''a.json'') \<and>
   presets_list (delete_selected_preset MoveOk started_app) = [''b.json''] \<and>
   monitor_sliders (delete_selected_preset MoveOk started_app) = [50, 50] \<and>
   NoMatch (delete_selected_preset MoveOk started_app) \<and>
   items (dropdown (delete_selected_preset MoveOk started_app)) = [''UnsavedPreset'', ''b.json'']"
proof -
  have ct: "currentText (dropdown started_app) = ''a.json''" by code_simp
  have ex: "os_path_exists (disk started_app) (presets_dir, ''a.json'')" by code_simp
  have sl: "monitor_sliders started_app = [30, 70]" by code_simp
  have pl: "sort (filter (\<lambda>file. endswith file ''.json'')
      (os_listdir (disk (delete_selected_preset MoveOk started_app)) presets_dir)) = [''b.json'']"
    by code_simp
  show ?thesis
    using delete_resets [OF ct _ _ ex, of MoveOk] ct ex
    by (simp add: sl pl numeral_2_eq_2)
qed




text \<open>
  C5, as amended. After a successful save whose chosen file lies in the presets
  directory and whose name already ends in \<open>.json\<close>, the state is \<open>Matched\<close> for that
  name: the saved flag is set and the current item of the combo box is the name.

  The claim as stated, for every chosen name, fails: the file dialog returns a path,
  \<open>save_current_preset\<close> writes there, and \<open>load_presets\<close> lists the presets directory
  only. A preset saved as \<open>Desktop/night.json\<close> is not listed; a preset saved as
  \<open>night\<close> is written to \<open>night.json\<close> while the combo box is asked for \<open>night\<close>. In
  both cases the current item stays the first preset of the list.
\<close>

theorem save_in_presets_dir_matches:
  assumes "endswith n ''.json''"
  shows "\<exists>s'. save_current_preset WriteOk (Some (presets_dir, n)) s = Inr s' \<and> Matched n s'"
proof -
  let ?s2 = "s\<lparr>disk := AList.update (presets_dir, with_suffix n) (JsonArray (monitor_sliders s)) (disk s),
                   is_preset_saved := True\<rparr>"
  have ws: "with_suffix n = n"
    using assms by (simp add: with_suffix_def)
  have "os_path_exists (disk ?s2) (presets_dir, n)"
    by (simp add: os_path_exists_def ws map_of_update_same)
  then have "n \<in> set (presets_list (load_presets ?s2))"
    using assms by (simp only: mem_load_presets_list)
  then have "n \<in> set (items (dropdown (load_presets ?s2)))"
    by (simp del: load_presets_list)
  then have ct: "currentText (combo_setCurrentText n (dropdown (load_presets ?s2))) = n"
    by (rule currentText_setCurrentText)
  have "is_preset_saved (load_presets ?s2)"
    by (rule load_presets_saved) simp
  with ct show ?thesis
    unfolding save_current_preset_eq [OF refl] by (simp add: Matched_def)
qed

theorem save_in_presets_dir_matches_witness:
  "endswith ''night.json'' ''.json'' \<and>
   (\<exists>s'. save_current_preset WriteOk (Some (presets_dir, ''night.json'')) started_app = Inr s' \<and>
         Matched ''night.json'' s')"
proof -
  have e: "endswith ''night.json'' ''.json''" by code_simp
  show ?thesis
    using save_in_presets_dir_matches [OF e, of started_app] e by simp
qed

theorem save_elsewhere_not_matched:
  "\<not> isl (save_current_preset WriteOk (Some (''Desktop'', ''night.json'')) started_app) \<and>
   currentText (dropdown (projr (save_current_preset WriteOk (Some (''Desktop'', ''night.json'')) started_app)))
     = ''a.json'' \<and>
   \<not> Matched ''night.json''
     (projr (save_current_preset WriteOk (Some (''Desktop'', ''night.json'')) started_app)) \<and>
   \<not> isl (save_current_preset WriteOk (Some (presets_dir, ''night'')) started_app) \<and>
   map_of (disk (projr (save_current_preset WriteOk (Some (presets_dir, ''night'')) started_app)))
     (presets_dir, ''night.json'') = Some (JsonArray [30, 70]) \<and>
   currentText (dropdown (projr (save_current_preset WriteOk (Some (presets_dir, ''night'')) started_app)))
     = ''a.json'' \<and>
   \<not> Matched ''night.json''
     (projr (save_current_preset WriteOk (Some (presets_dir, ''night'')) started_app)) \<and>
   \<not> Matched ''night''
     (projr (save_current_preset WriteOk (Some (presets_dir, ''night'')) started_app))"
  by code_simp

text \<open>
  C4. An I/O error while writing the preset file is not swallowed:
  \<open>save_current_preset\<close> has no \<open>try\<close>, so the error leaves the method as an
  exception. When \<open>open\<close> fails the state and the files are as before; when the write
  breaks off the method raises as well.
\<close>

theorem save_open_error_propagates:
  "save_current_preset OpenFails (Some (presets_dir, ''night.json'')) started_app =
     Inl (OSError, started_app) \<and>
   isl (save_current_preset DumpFails (Some (presets_dir, ''night.json'')) started_app)"
  by (simp add: save_current_preset_def)

text \<open>
  C2, as amended. For every name and every sequence of slider values of a reachable
  state: a successful save whose chosen file lies in the presets directory writes the
  sequence under the name (with \<open>.json\<close> appended when the name lacks it); loading the
  preset of that name returns exactly the sequence, and applying it, with whatever combo
  box shows that name as current, sets the sliders to exactly the sequence.

  The claim as stated, for every name, fails: the dialog returns a path and the file is
  written there, while a preset is loaded from the presets directory. After saving
  \<open>[30, 70]\<close> as \<open>Desktop/a.json\<close>, loading \<open>a.json\<close> returns the older \<open>[40, 40]\<close>.
\<close>

theorem save_then_load_roundtrip:
  assumes "reachable s"
  shows "\<exists>s'. save_current_preset WriteOk (Some (presets_dir, n)) s = Inr s' \<and>
           json_load_preset s' (with_suffix n) = Some (monitor_sliders s) \<and>
           (\<forall>c. currentText c = with_suffix n \<longrightarrow>
                monitor_sliders (apply_selected_preset (s'\<lparr>dropdown := c\<rparr>)) = monitor_sliders s)"
proof -
  let ?s2 = "s\<lparr>disk := AList.update (presets_dir, with_suffix n) (JsonArray (monitor_sliders s)) (disk s),
                   is_preset_saved := True\<rparr>"
  let ?s' = "(load_presets ?s2)\<lparr>dropdown :=
        (combo_setCurrentText n (dropdown (load_presets ?s2)))\<lparr>signalsBlocked := False\<rparr>\<rparr>"
  have f: "map_of (disk ?s') (presets_dir, with_suffix n) = Some (JsonArray (monitor_sliders s))"
    by (simp add: map_of_update_same)
  have ne: "with_suffix n \<noteq> []" and ns: "with_suffix n \<noteq> ''UnsavedPreset''"
    using with_suffix_endswith [of n] sentinel_no_suffix by (auto simp: endswith_nonempty)
  have ok: "map setValue (monitor_sliders s) = monitor_sliders s"
    using assms by (simp add: reachable_levels_ok map_setValue_id)
  have len: "length (monitor_sliders ?s') = length (monitor_sliders s)"
    by simp
  have "monitor_sliders (apply_selected_preset (?s'\<lparr>dropdown := c\<rparr>)) = monitor_sliders s"
    if c: "currentText c = with_suffix n" for c
  proof -
    have f': "map_of (disk (?s'\<lparr>dropdown := c\<rparr>)) (presets_dir, with_suffix n) =
        Some (JsonArray (monitor_sliders s))"
      using f by simp
    have c': "currentText (dropdown (?s'\<lparr>dropdown := c\<rparr>)) = with_suffix n"
      using c by simp
    have fits: "\<forall>v \<in> set (take (length (monitor_sliders (?s'\<lparr>dropdown := c\<rparr>))) (monitor_sliders s)).
        fits_c_int v"
      using assms by (intro levels_ok_fits reachable_levels_ok)
    show ?thesis
      unfolding apply_selected_preset_eq [OF c' ne ns f' fits] using ok by simp
  qed
  moreover have "json_load_preset ?s' (with_suffix n) = Some (monitor_sliders s)"
    using f by (simp add: json_load_preset_def)
  ultimately show ?thesis
    unfolding save_current_preset_eq [OF refl] by blast
qed

theorem save_then_load_roundtrip_witness:
  "reachable started_app \<and> monitor_sliders started_app = [30, 70] \<and>
   (\<exists>s'. save_current_preset WriteOk (Some (presets_dir, ''night'')) started_app = Inr s' \<and>
         json_load_preset s' ''night.json'' = Some [30, 70] \<and>
         monitor_sliders (apply_selected_preset
           (s'\<lparr>dropdown := \<lparr>items = [''night.json''], currentIndex = 0, signalsBlocked = False\<rparr>\<rparr>))
           = [30, 70])"
proof -
  have sl: "monitor_sliders started_app = [30, 70]" by code_simp
  have ws: "with_suffix ''night'' = ''night.json''" by code_simp
  have ct: "currentText \<lparr>items = [''night.json''], currentIndex = 0, signalsBlocked = False\<rparr> = ''night.json''"
    by simp
  obtain s' where s': "save_current_preset WriteOk (Some (presets_dir, ''night'')) started_app = Inr s'"
    and l: "json_load_preset s' ''night.json'' = Some [30, 70]"
    and a: "\<forall>c. currentText c = ''night.json'' \<longrightarrow>
        monitor_sliders (apply_selected_preset (s'\<lparr>dropdown := c\<rparr>)) = [30, 70]"
    using save_then_load_roundtrip [OF reachable_started_app, of "''night''"]
    unfolding sl ws by blast
  from a ct have "monitor_sliders (apply_selected_preset
      (s'\<lparr>dropdown := \<lparr>items = [''night.json''], currentIndex = 0, signalsBlocked = False\<rparr>\<rparr>)) = [30, 70]"
    by blast
  with s' l show ?thesis
    using reachable_started_app sl by blast
qed

theorem save_elsewhere_loads_other:
  "monitor_sliders started_app = [30, 70] \<and>
   \<not> isl (save_current_preset WriteOk (Some (''Desktop'', ''a.json'')) started_app) \<and>
   map_of (disk (projr (save_current_preset WriteOk (Some (''Desktop'', ''a.json'')) started_app)))
     (''Desktop'', ''a.json'') = Some (JsonArray [30, 70]) \<and>
   currentText (dropdown (projr (save_current_preset WriteOk (Some (''Desktop'', ''a.json'')) started_app)))
     = ''a.json'' \<and>
   json_load_preset (projr (save_current_preset WriteOk (Some (''Desktop'', ''a.json'')) started_app))
     ''a.json'' = Some [40, 40] \<and>
   monitor_sliders (apply_selected_preset
     (projr (save_current_preset WriteOk (Some (''Desktop'', ''a.json'')) started_app))) = [40, 40]"
  by code_simp

text \<open>
  C3. Debounce, last write wins. In a reachable state, let the slider of display \<open>i\<close>
  report the values \<open>v0\<close>, then those of \<open>ms\<close>, each less than 50 time units after the
  one before, and let 50 time units or more pass after the last. Over the whole run
  exactly one brightness-set call is issued for display \<open>i\<close>, carrying the last value.
  After the moves the only pending timer of the display is the one of the last move:
  every earlier one was stopped by the move that followed it.
\<close>

theorem debounce_last_write_wins:
  assumes "reachable s" and "\<forall>m \<in> set ms. fst m < 50" and "50 \<le> d_end"
  shows "calls_for i (advance d_end (run_moves i ms (monitor_slider_changed i v0 s))) =
           calls_for i s @ [(i, last (v0 # map snd ms))] \<and>
         pending i (run_moves i ms (monitor_slider_changed i v0 s)) =
           [\<lparr>active = True, deadline = clock s + sum_list (map fst ms) + 50, t_idx = i,
             t_val = last (v0 # map snd ms)\<rparr>] \<and>
         pending i (advance d_end (run_moves i ms (monitor_slider_changed i v0 s))) = []"
proof -
  let ?s0 = "monitor_slider_changed i v0 s"
  have ok: "timers_ok s"
    using assms(1) by (rule reachable_timers_ok)
  have ok0: "timers_ok ?s0"
    using ok by (rule timers_ok_monitor_slider_changed)
  have p0: "pending i ?s0 = [\<lparr>active = True, deadline = clock ?s0 + 50, t_idx = i, t_val = v0\<rparr>]"
    using ok by (simp add: pending_monitor_slider_changed monitor_slider_changed_timers)
  note r = run_moves_pending [OF assms(2) ok0 p0]
  have cl: "clock (run_moves i ms ?s0) = clock s + sum_list (map fst ms)"
    using r by (simp add: monitor_slider_changed_timers)
  have p: "pending i (run_moves i ms ?s0) =
      [\<lparr>active = True, deadline = clock s + sum_list (map fst ms) + 50, t_idx = i,
        t_val = last (v0 # map snd ms)\<rparr>]"
    using r cl by simp
  have c: "calls_for i (run_moves i ms ?s0) = calls_for i s"
    using r by simp
  show ?thesis
    using assms(3) by (simp add: calls_for_advance pending_advance p c cl)
qed

theorem debounce_last_write_wins_witness:
  "reachable started_app \<and>
   workers_started (advance 50 (run_moves 0 [(10, 45), (20, 60)] (monitor_slider_changed 0 30 started_app)))
     = [(0, 60)] \<and>
   calls_for 0 (advance 50 (run_moves 0 [(10, 45), (20, 60)] (monitor_slider_changed 0 30 started_app)))
     = [(0, 60)]"
proof -
  have m: "\<forall>m \<in> set [(10, 45), (20, 60 :: int)]. fst m < (50 :: nat)" by simp
  have c0: "calls_for 0 started_app = []" by code_simp
  have w: "workers_started (advance 50 (run_moves 0 [(10, 45), (20, 60)]
      (monitor_slider_changed 0 30 started_app))) = [(0, 60)]"
    by code_simp
  have "calls_for 0 (advance 50 (run_moves 0 [(10, 45), (20, 60)]
      (monitor_slider_changed 0 30 started_app))) =
      calls_for 0 started_app @ [(0, last (30 # map snd [(10 :: nat, 45), (20, 60 :: int)]))]"
    using debounce_last_write_wins [OF reachable_started_app m, of 50 0 30] by blast
  then have t: "calls_for 0 (advance 50 (run_moves 0 [(10, 45), (20, 60)]
      (monitor_slider_changed 0 30 started_app))) = [(0, 60)]"
    unfolding c0 by simp
  from reachable_started_app w t show ?thesis
    by (intro conjI)
qed

end
